theory Spec2Isabelle
  imports Complex_Main
begin

section \<open>The module state of diyaudioplayer.js\<close>

text \<open>
  The player is one JavaScript module with module-level variables and one
  \<^verbatim>\<open>HTMLAudioElement\<close>. The embedding keeps every variable that the playback logic
  reads or writes in a record, under the name the source gives it, and passes the record
  through each function.

  \<^item> A playlist entry is a JavaScript object; it is an association list from keys to
    values here, so that an entry without a \<^verbatim>\<open>url\<close> key can be written down.
  \<^item> The argument of \<^verbatim>\<open>loadPlaylist\<close> is \<open>None\<close> for \<^verbatim>\<open>undefined\<close>.
  \<^item> The registered handlers are caller code. A handler slot is modelled by whether it
    holds a handler (the source only tests \<^verbatim>\<open>null != handler\<close>), and a call of the
    handler is an entry of the trace. Handlers are assumed not to call back into the
    player; whatever they throw is caught by the source's \<^verbatim>\<open>try\<close> blocks.
  \<^item> The audio element belongs to the browser. Each command the player sends to it
    (assigning \<^verbatim>\<open>src\<close> or \<^verbatim>\<open>currentTime\<close>, \<^verbatim>\<open>play()\<close>, \<^verbatim>\<open>pause()\<close>) is an entry
    of the same trace, in program order. The only attribute the playback logic reads back
    is \<^verbatim>\<open>audio.src\<close> (field \<open>audio_src\<close>, the value last assigned); the flags
    \<^verbatim>\<open>audio.ended\<close> and \<^verbatim>\<open>audio.paused\<close> are inputs of the interval handler.
  \<^item> Seek positions are finite numbers of seconds (\<open>real\<close>).
  \<^item> The functions of the source's HTML/CSS section (\<^verbatim>\<open>uiUpdateStatus\<close>,
    \<^verbatim>\<open>uiSetPlaybackPosition\<close>, \<^verbatim>\<open>uiUpdatePlayPauseButton\<close>,
    \<^verbatim>\<open>uiUpdateTrackSkipButtons\<close>) only write to the document and assign none of the
    variables below; their calls, \<^verbatim>\<open>console.error\<close> and the \<^verbatim>\<open>setInterval\<close>
    registration are left out.
\<close>

type_synonym track = "(string \<times> string) list"

datatype effect =
    AudioSetSrc string
  | AudioSetCurrentTime real
  | AudioPlay
  | AudioPause
  | UdfPlay
  | UdfPause
  | UdfStop
  | UdfTrackChange int

datatype error =
    PlaylistNotFound
  | PlaylistEmpty
  | PlaylistMissingUrl nat
  | TypeError

record player =
  playlist :: "track list option"
  playlistIndex :: int
  playing :: bool
  deferredAudioSrc :: "string option"
  deferredInitialSeekTime :: "real option"
  noTime :: string
  displayTimeZeroPad :: bool
  udfPlayHandler :: bool
  udfPauseHandler :: bool
  udfStopHandler :: bool
  udfTrackChangeHandler :: bool
  udfPrevTrackChangeHandlerIndex :: "int option"
  audio_src :: string
  trace :: "effect list"

text \<open>
  A JavaScript exception leaves the assignments made before it in place, so a thrown
  error carries the state at the throw.
\<close>

datatype outcome = Done player | Threw error player

fun state_of :: "outcome \<Rightarrow> player" where
  "state_of (Done s) = s"
| "state_of (Threw e s) = s"

fun then_do :: "outcome \<Rightarrow> (player \<Rightarrow> outcome) \<Rightarrow> outcome" where
  "then_do (Done s) f = f s"
| "then_do (Threw e s) f = Threw e s"

text \<open>The values of the module variables when the script has been loaded.\<close>

definition init_state :: player where
  "init_state =
     \<lparr> playlist = None, playlistIndex = 0, playing = False,
       deferredAudioSrc = None, deferredInitialSeekTime = None,
       noTime = ''--:--'', displayTimeZeroPad = False,
       udfPlayHandler = False, udfPauseHandler = False, udfStopHandler = False,
       udfTrackChangeHandler = False, udfPrevTrackChangeHandlerIndex = None,
       audio_src = [], trace = [] \<rparr>"

definition emit :: "effect \<Rightarrow> player \<Rightarrow> player" where
  "emit e s = s\<lparr>trace := trace s @ [e]\<rparr>"

text \<open>\<^verbatim>\<open>"url" in entry\<close> and \<^verbatim>\<open>entry["url"]\<close>; a missing key reads as
  \<^verbatim>\<open>undefined\<close>, which the \<^verbatim>\<open>src\<close> attribute stores as that word.\<close>

definition has_url :: "track \<Rightarrow> bool" where
  "has_url t = (map_of t ''url'' \<noteq> None)"

definition track_url :: "track \<Rightarrow> string" where
  "track_url t = (case map_of t ''url'' of Some u \<Rightarrow> u | None \<Rightarrow> ''undefined'')"

text \<open>\<^verbatim>\<open>playlist[i]\<close>: \<^verbatim>\<open>undefined\<close> (here \<open>None\<close>) outside the array.\<close>

definition item :: "track list \<Rightarrow> int \<Rightarrow> track option" where
  "item pl i = (if 0 \<le> i \<and> i < int (length pl) then Some (pl ! nat i) else None)"

text \<open>The statement \<^verbatim>\<open>audio.src = playlist[playlistIndex]["url"]\<close>, which throws a
  \<^verbatim>\<open>TypeError\<close> when the playlist is \<^verbatim>\<open>null\<close> or has no such entry.\<close>

definition assign_current_src :: "player \<Rightarrow> outcome" where
  "assign_current_src s =
     (case playlist s of
        None \<Rightarrow> Threw TypeError s
      | Some pl \<Rightarrow>
          (case item pl (playlistIndex s) of
             None \<Rightarrow> Threw TypeError s
           | Some t \<Rightarrow> Done (emit (AudioSetSrc (track_url t)) (s\<lparr>audio_src := track_url t\<rparr>))))"

section \<open>User-defined handlers\<close>

definition handleUdfNoArgFunction :: "bool \<Rightarrow> effect \<Rightarrow> player \<Rightarrow> player" where
  "handleUdfNoArgFunction functionRef call s = (if functionRef then emit call s else s)"

definition handleUdfPlay :: "player \<Rightarrow> player" where
  "handleUdfPlay s = handleUdfNoArgFunction (udfPlayHandler s) UdfPlay s"

definition handleUdfPause :: "player \<Rightarrow> player" where
  "handleUdfPause s = handleUdfNoArgFunction (udfPauseHandler s) UdfPause s"

definition handleUdfStop :: "player \<Rightarrow> player" where
  "handleUdfStop s = handleUdfNoArgFunction (udfStopHandler s) UdfStop s"

definition handleUdfTrackChange :: "int \<Rightarrow> player \<Rightarrow> player" where
  "handleUdfTrackChange i s =
     (if udfTrackChangeHandler s then
        (let s1 = (if Some i \<noteq> udfPrevTrackChangeHandlerIndex s
                   then emit (UdfTrackChange i) s else s)
         in s1\<lparr>udfPrevTrackChangeHandlerIndex := Some i\<rparr>)
      else s)"

definition registerPlayHandler :: "bool \<Rightarrow> player \<Rightarrow> player" where
  "registerPlayHandler h s = s\<lparr>udfPlayHandler := h\<rparr>"

definition registerPauseHandler :: "bool \<Rightarrow> player \<Rightarrow> player" where
  "registerPauseHandler h s = s\<lparr>udfPauseHandler := h\<rparr>"

definition registerStopHandler :: "bool \<Rightarrow> player \<Rightarrow> player" where
  "registerStopHandler h s = s\<lparr>udfStopHandler := h\<rparr>"

definition registerTrackChangeHandler :: "bool \<Rightarrow> player \<Rightarrow> player" where
  "registerTrackChangeHandler h s = s\<lparr>udfTrackChangeHandler := h\<rparr>"

section \<open>Public playback functions\<close>

definition pause :: "player \<Rightarrow> player" where
  "pause s = handleUdfPause (emit AudioPause (s\<lparr>playing := False\<rparr>))"

definition play :: "player \<Rightarrow> player" where
  "play s =
     (let wasAlreadyPlaying = playing s;
          s1 = s\<lparr>playing := True\<rparr>;
          s2 = (case deferredAudioSrc s1 of
                  Some u \<Rightarrow> (emit (AudioSetSrc u) (s1\<lparr>audio_src := u\<rparr>))\<lparr>deferredAudioSrc := None\<rparr>
                | None \<Rightarrow> s1);
          s3 = (case deferredInitialSeekTime s2 of
                  Some t \<Rightarrow> (emit (AudioSetCurrentTime t) s2)\<lparr>deferredInitialSeekTime := None\<rparr>
                | None \<Rightarrow> s2);
          s4 = emit AudioPlay s3;
          s5 = handleUdfTrackChange (playlistIndex s4) s4
      in if \<not> wasAlreadyPlaying then handleUdfPlay s5 else s5)"

text \<open>The function passed to \<^verbatim>\<open>playPromise.catch\<close> in \<^verbatim>\<open>play\<close>: the browser runs it,
  after \<^verbatim>\<open>play\<close> has returned, when the promise of \<^verbatim>\<open>audio.play()\<close> is rejected.\<close>

definition play_catch :: "player \<Rightarrow> player" where
  "play_catch s = pause (s\<lparr>deferredAudioSrc := Some (audio_src s)\<rparr>)"

definition stop :: "player \<Rightarrow> player" where
  "stop s =
     (let s1 = emit AudioPause (s\<lparr>playing := False\<rparr>);
          s2 = s1\<lparr>deferredInitialSeekTime := None\<rparr>;
          s3 = emit (AudioSetCurrentTime 0) s2
      in handleUdfStop s3)"

definition playPause :: "player \<Rightarrow> player" where
  "playPause s = (if playing s then pause s else play s)"

definition isPlaying :: "player \<Rightarrow> bool" where
  "isPlaying s = playing s"

definition seek :: "real \<Rightarrow> player \<Rightarrow> player" where
  "seek seconds s =
     (if playing s then emit (AudioSetCurrentTime seconds) s
      else s\<lparr>deferredInitialSeekTime := Some seconds\<rparr>)"

definition clear_deferred :: "player \<Rightarrow> player" where
  "clear_deferred s = s\<lparr>deferredAudioSrc := None, deferredInitialSeekTime := None\<rparr>"

definition prevTrack :: "player \<Rightarrow> outcome" where
  "prevTrack s =
     then_do
       (if 0 = playlistIndex s then
          (case playlist s of
             None \<Rightarrow> Threw TypeError s
           | Some pl \<Rightarrow> Done (s\<lparr>playlistIndex := int (length pl) - 1\<rparr>))
        else Done (s\<lparr>playlistIndex := playlistIndex s - 1\<rparr>))
       (\<lambda>s1. then_do (assign_current_src (clear_deferred s1))
          (\<lambda>s2. Done (play (handleUdfTrackChange (playlistIndex s2) s2))))"

definition nextTrack :: "player \<Rightarrow> outcome" where
  "nextTrack s =
     then_do
       (case playlist s of
          None \<Rightarrow> Threw TypeError s
        | Some pl \<Rightarrow>
            (if playlistIndex s = int (length pl) - 1
             then Done (s\<lparr>playlistIndex := 0\<rparr>)
             else Done (s\<lparr>playlistIndex := playlistIndex s + 1\<rparr>)))
       (\<lambda>s1. then_do (assign_current_src (clear_deferred s1))
          (\<lambda>s2. Done (play (handleUdfTrackChange (playlistIndex s2) s2))))"

text \<open>\<^verbatim>\<open>(trackIndex < 0) || (trackIndex >= playlist.length)\<close> reads the playlist only
  when the first test is false.\<close>

definition playTrack :: "int \<Rightarrow> player \<Rightarrow> outcome" where
  "playTrack trackIndex s =
     (if trackIndex < 0 then Done s
      else
        (case playlist s of
           None \<Rightarrow> Threw TypeError s
         | Some pl \<Rightarrow>
             (if trackIndex \<ge> int (length pl) then Done s
              else
                then_do
                  (if trackIndex \<noteq> playlistIndex s
                   then assign_current_src (s\<lparr>playlistIndex := trackIndex\<rparr>)
                   else Done s)
                  (\<lambda>s1. Done (play (clear_deferred s1))))))"

definition getCurrentPlaylistIndex :: "player \<Rightarrow> int" where
  "getCurrentPlaylistIndex s = playlistIndex s"

section \<open>Loading a playlist\<close>

text \<open>The validation loop of \<^verbatim>\<open>loadPlaylist\<close>: the first index, from \<open>i\<close> on, of an
  entry without \<^verbatim>\<open>url\<close>.\<close>

fun missing_url_from :: "nat \<Rightarrow> track list \<Rightarrow> nat option" where
  "missing_url_from i [] = None"
| "missing_url_from i (t # ts) =
     (if \<not> has_url t then Some i else missing_url_from (Suc i) ts)"

definition loadPlaylist :: "track list option \<Rightarrow> player \<Rightarrow> outcome" where
  "loadPlaylist userPlaylist s =
     (case userPlaylist of
        None \<Rightarrow> Threw PlaylistNotFound s
      | Some pl \<Rightarrow>
          (if 0 = length pl then Threw PlaylistEmpty s
           else
             (case missing_url_from 0 pl of
                Some i \<Rightarrow> Threw (PlaylistMissingUrl i) s
              | None \<Rightarrow>
                  (let s1 = s\<lparr>playlist := Some pl, playlistIndex := 0\<rparr>;
                       wasPlaying = playing s1;
                       s2 = (if wasPlaying then pause s1 else s1)
                   in then_do (assign_current_src (clear_deferred s2))
                        (\<lambda>s3.
                           let s4 = handleUdfTrackChange (playlistIndex s3)
                                      (s3\<lparr>udfPrevTrackChangeHandlerIndex := None\<rparr>)
                           in Done (if wasPlaying then play s4 else s4))))))"

definition init :: "track list option \<Rightarrow> player \<Rightarrow> outcome" where
  "init userPlaylist s = loadPlaylist userPlaylist s"

section \<open>The interval handler\<close>

record snapshot =
  audio_ended :: bool
  audio_paused :: bool

definition playStateIntervalHandler :: "snapshot \<Rightarrow> player \<Rightarrow> outcome" where
  "playStateIntervalHandler a s =
     (if playing s then
        (if audio_ended a then
           (case playlist s of
              None \<Rightarrow> Threw TypeError s
            | Some pl \<Rightarrow>
                (if playlistIndex s < int (length pl) - 1 then nextTrack s
                 else
                   then_do (assign_current_src ((pause s)\<lparr>playlistIndex := 0\<rparr>))
                     (\<lambda>s1. let s2 = clear_deferred s1
                            in Done (handleUdfTrackChange (playlistIndex s2) s2))))
         else if audio_paused a then Done (pause s)
         else Done s)
      else
        (if \<not> audio_paused a then Done (play s) else Done s))"

section \<open>Display times\<close>

text \<open>
  A JavaScript number is \<^verbatim>\<open>NaN\<close>, an infinity or a finite double. A finite double is
  written as the real number it stands for, and the operations are those of IEEE 754
  double arithmetic:
  \<^item> \<^verbatim>\<open>Math.abs\<close>, \<^verbatim>\<open>Math.round\<close> (halves go up), \<^verbatim>\<open>Math.floor\<close> and the remainder
    \<^verbatim>\<open>%\<close> (which takes the sign of the dividend) return the exact result, which is a
    double again;
  \<^item> the division \<^verbatim>\<open>/\<close> rounds the exact quotient to the nearest double, ties to the
    even significand (\<open>to_double\<close>: 53 significant bits). \<open>to_double\<close> has no bounds on
    the exponent; dividing a non-negative integer by 60 or 3600, as the formatter does,
    neither overflows nor reaches the subnormal numbers. Division and remainder are needed
    for the positive constants 60 and 3600 only;
  \<^item> \<^verbatim>\<open>"" + n\<close> prints an integer of magnitude below \<open>2^53\<close> in decimal digits. Any
    other number is printed by the engine's shortest-digits conversion (from \<open>10^21\<close> on
    in exponent notation), which is not modelled: it is a parameter, \<open>engine_str\<close>, of
    \<open>js_str\<close> and of the formatter.
\<close>

datatype jsnum = NaN | PosInf | NegInf | Fin real

fun js_isNaN :: "jsnum \<Rightarrow> bool" where
  "js_isNaN NaN = True"
| "js_isNaN x = False"

fun js_abs :: "jsnum \<Rightarrow> jsnum" where
  "js_abs NaN = NaN"
| "js_abs PosInf = PosInf"
| "js_abs NegInf = PosInf"
| "js_abs (Fin x) = Fin \<bar>x\<bar>"

fun js_round :: "jsnum \<Rightarrow> jsnum" where
  "js_round (Fin x) = Fin (of_int \<lfloor>x + 1 / 2\<rfloor>)"
| "js_round x = x"

fun js_floor :: "jsnum \<Rightarrow> jsnum" where
  "js_floor (Fin x) = Fin (of_int \<lfloor>x\<rfloor>)"
| "js_floor x = x"

text \<open>Rounding to the nearest integer, ties to the even one, and rounding a real number
  to the nearest double: \<open>e\<close> is the binary exponent of \<open>x\<close> and \<open>u\<close> the distance between
  neighbouring doubles at that exponent.\<close>

definition round_even :: "real \<Rightarrow> int" where
  "round_even y =
     (if y - of_int \<lfloor>y\<rfloor> < 1 / 2 then \<lfloor>y\<rfloor>
      else if 1 / 2 < y - of_int \<lfloor>y\<rfloor> then \<lfloor>y\<rfloor> + 1
      else if even \<lfloor>y\<rfloor> then \<lfloor>y\<rfloor> else \<lfloor>y\<rfloor> + 1)"

definition to_double :: "real \<Rightarrow> real" where
  "to_double x =
     (if x = 0 then 0
      else
        let e = \<lfloor>log 2 \<bar>x\<bar>\<rfloor>;
            u = 2 powr of_int (e - 52)
        in u * of_int (round_even (x / u)))"

fun js_div :: "jsnum \<Rightarrow> real \<Rightarrow> jsnum" where
  "js_div (Fin x) d = Fin (to_double (x / d))"
| "js_div x d = x"

fun js_mod :: "jsnum \<Rightarrow> real \<Rightarrow> jsnum" where
  "js_mod (Fin x) d =
     Fin (if 0 \<le> x then x - d * of_int \<lfloor>x / d\<rfloor> else - (- x - d * of_int \<lfloor>- x / d\<rfloor>))"
| "js_mod x d = NaN"

fun js_lt :: "jsnum \<Rightarrow> real \<Rightarrow> bool" where
  "js_lt (Fin x) c = (x < c)"
| "js_lt NegInf c = True"
| "js_lt x c = False"

fun js_gt :: "jsnum \<Rightarrow> real \<Rightarrow> bool" where
  "js_gt (Fin x) c = (x > c)"
| "js_gt PosInf c = True"
| "js_gt x c = False"

definition digit_char :: "nat \<Rightarrow> char" where
  "digit_char d = ''0123456789'' ! d"

fun nat_str :: "nat \<Rightarrow> string" where
  "nat_str n = (if n < 10 then [digit_char n] else nat_str (n div 10) @ [digit_char (n mod 10)])"

fun js_str :: "(real \<Rightarrow> string) \<Rightarrow> jsnum \<Rightarrow> string" where
  "js_str engine_str NaN = ''NaN''"
| "js_str engine_str PosInf = ''Infinity''"
| "js_str engine_str NegInf = ''-Infinity''"
| "js_str engine_str (Fin x) =
     (if of_int \<lfloor>x\<rfloor> = x \<and> \<bar>x\<bar> < 2 ^ 53
      then (if x < 0 then ''-'' @ nat_str (nat \<lfloor>- x\<rfloor>) else nat_str (nat \<lfloor>x\<rfloor>))
      else engine_str x)"

definition secondsToDisplayTime :: "(real \<Rightarrow> string) \<Rightarrow> player \<Rightarrow> jsnum \<Rightarrow> string" where
  "secondsToDisplayTime engine_str s seconds =
     (if js_isNaN seconds then noTime s
      else
        let intTotalSeconds = js_round (js_abs seconds) in
        if js_isNaN intTotalSeconds then noTime s
        else
          let intHours = js_floor (js_div intTotalSeconds 3600) in
          if js_isNaN intHours then noTime s
          else
            let intMinutes = js_floor (js_div intTotalSeconds 60) in
            if js_isNaN intMinutes then noTime s
            else
              let intSeconds = js_round (js_mod intTotalSeconds 60) in
              if js_isNaN intSeconds then noTime s
              else
                let maybeNegative = (if js_lt seconds 0 then ''-'' else '''');
                    strMinutes = (if displayTimeZeroPad s \<and> js_lt intMinutes 10
                                  then ''0'' @ js_str engine_str intMinutes
                                  else js_str engine_str intMinutes);
                    strSeconds = (if js_lt intSeconds 10
                                  then ''0'' @ js_str engine_str intSeconds
                                  else js_str engine_str intSeconds)
                in
                  if js_gt intHours 0 then
                    let strHours = js_str engine_str intHours;
                        modMinutes = js_mod intMinutes 60;
                        strMinutes = (if js_lt modMinutes 10
                                      then ''0'' @ js_str engine_str modMinutes
                                      else js_str engine_str modMinutes)
                    in maybeNegative @ strHours @ '':'' @ strMinutes @ '':'' @ strSeconds
                  else maybeNegative @ strMinutes @ '':'' @ strSeconds)"

definition setNoTimeDisplay :: "string \<Rightarrow> player \<Rightarrow> player" where
  "setNoTimeDisplay v s = s\<lparr>noTime := v\<rparr>"

definition enableDisplayTimeZeroPad :: "player \<Rightarrow> player" where
  "enableDisplayTimeZeroPad s = s\<lparr>displayTimeZeroPad := True\<rparr>"

section \<open>Sequences of operations\<close>

text \<open>
  What can happen to the player, one at a time: a call of a public function, a run of
  the interval handler with the flags the audio element shows at that moment, or the
  rejection of a play promise. After a throw the next operation starts from the state
  the throw left behind.
\<close>

datatype op =
    LoadPlaylist "track list option"
  | Play
  | Stop
  | Pause
  | PlayPause
  | Seek real
  | PrevTrack
  | NextTrack
  | PlayTrack int
  | Tick snapshot
  | PlayRejected
  | RegisterPlayHandler bool
  | RegisterPauseHandler bool
  | RegisterStopHandler bool
  | RegisterTrackChangeHandler bool
  | SetNoTimeDisplay string
  | EnableDisplayTimeZeroPad

fun apply_op :: "op \<Rightarrow> player \<Rightarrow> outcome" where
  "apply_op (LoadPlaylist up) s = loadPlaylist up s"
| "apply_op Play s = Done (play s)"
| "apply_op Stop s = Done (stop s)"
| "apply_op Pause s = Done (pause s)"
| "apply_op PlayPause s = Done (playPause s)"
| "apply_op (Seek x) s = Done (seek x s)"
| "apply_op PrevTrack s = prevTrack s"
| "apply_op NextTrack s = nextTrack s"
| "apply_op (PlayTrack i) s = playTrack i s"
| "apply_op (Tick a) s = playStateIntervalHandler a s"
| "apply_op PlayRejected s = Done (play_catch s)"
| "apply_op (RegisterPlayHandler h) s = Done (registerPlayHandler h s)"
| "apply_op (RegisterPauseHandler h) s = Done (registerPauseHandler h s)"
| "apply_op (RegisterStopHandler h) s = Done (registerStopHandler h s)"
| "apply_op (RegisterTrackChangeHandler h) s = Done (registerTrackChangeHandler h s)"
| "apply_op (SetNoTimeDisplay v) s = Done (setNoTimeDisplay v s)"
| "apply_op EnableDisplayTimeZeroPad s = Done (enableDisplayTimeZeroPad s)"

fun run :: "op list \<Rightarrow> player \<Rightarrow> player" where
  "run [] s = s"
| "run (c # cs) s = run cs (state_of (apply_op c s))"

fun is_load :: "op \<Rightarrow> bool" where
  "is_load (LoadPlaylist up) = True"
| "is_load c = False"

fun is_done :: "outcome \<Rightarrow> bool" where
  "is_done (Done s) = True"
| "is_done (Threw e s) = False"

text \<open>
  The operations that leave the track alone: all but loading a playlist, the three
  navigation functions, and a run of the interval handler that sees the track ended.
  While only such operations run, the audio element holds one source \<open>u\<close>, and the
  deferred source is either absent or that same \<open>u\<close>.
\<close>

fun keeps_track :: "op \<Rightarrow> bool" where
  "keeps_track (LoadPlaylist up) = False"
| "keeps_track PrevTrack = False"
| "keeps_track NextTrack = False"
| "keeps_track (PlayTrack i) = False"
| "keeps_track (Tick a) = (\<not> audio_ended a)"
| "keeps_track c = True"

definition holds_source :: "string \<Rightarrow> player \<Rightarrow> bool" where
  "holds_source u s =
     (audio_src s = u \<and> (deferredAudioSrc s = None \<or> deferredAudioSrc s = Some u))"

section \<open>Reading the trace\<close>

text \<open>The calls of the track-change handler that \<open>handleUdfTrackChange i\<close> makes in
  state \<open>s\<close>, and the commands \<open>play\<close> sends to the audio element.\<close>

definition track_change_calls :: "int \<Rightarrow> player \<Rightarrow> effect list" where
  "track_change_calls i s =
     (if udfTrackChangeHandler s \<and> udfPrevTrackChangeHandlerIndex s \<noteq> Some i
      then [UdfTrackChange i] else [])"

definition play_commands :: "player \<Rightarrow> effect list" where
  "play_commands s =
     (case deferredAudioSrc s of Some u \<Rightarrow> [AudioSetSrc u] | None \<Rightarrow> [])
     @ (case deferredInitialSeekTime s of Some t \<Rightarrow> [AudioSetCurrentTime t] | None \<Rightarrow> [])
     @ [AudioPlay]"

text \<open>The positions assigned to \<^verbatim>\<open>audio.currentTime\<close>, in order.\<close>

fun seeks_of :: "effect list \<Rightarrow> real list" where
  "seeks_of [] = []"
| "seeks_of (AudioSetCurrentTime t # es) = t # seeks_of es"
| "seeks_of (e # es) = seeks_of es"

text \<open>The indices the track-change handler has been called with, in order.\<close>

fun track_changes_of :: "effect list \<Rightarrow> int list" where
  "track_changes_of [] = []"
| "track_changes_of (UdfTrackChange i # es) = i # track_changes_of es"
| "track_changes_of (e # es) = track_changes_of es"

text \<open>
  The index the dispatcher remembers, as a list of at most one element, and the
  relation between two states that every operation but \<^verbatim>\<open>loadPlaylist\<close> maintains:
  the later trace extends the earlier one, the remembered index followed by the new
  calls never repeats an index, and the index remembered afterwards is the last of them.
\<close>

definition remembered :: "player \<Rightarrow> int list" where
  "remembered s = (case udfPrevTrackChangeHandlerIndex s of None \<Rightarrow> [] | Some i \<Rightarrow> [i])"

definition last_of :: "'a list \<Rightarrow> 'a list" where
  "last_of xs = (if xs = [] then [] else [last xs])"

definition follows :: "player \<Rightarrow> player \<Rightarrow> bool" where
  "follows s s' =
     (\<exists>d. track_changes_of (trace s') = track_changes_of (trace s) @ d
          \<and> distinct_adj (remembered s @ d)
          \<and> remembered s' = last_of (remembered s @ d))"

text \<open>
  A state is settled when a track-change handler is registered and was last called with
  the current index. \<open>index_ok\<close> is the range invariant of the index. \<open>settles\<close> lists
  the indices a sequence of operations settles on: the index after each operation that
  changed it, and the index after each \<^verbatim>\<open>loadPlaylist\<close> that returned normally.
\<close>

definition settled :: "player \<Rightarrow> bool" where
  "settled s = (udfTrackChangeHandler s
                \<and> udfPrevTrackChangeHandlerIndex s = Some (playlistIndex s))"

definition index_ok :: "player \<Rightarrow> bool" where
  "index_ok s =
     (case playlist s of
        None \<Rightarrow> playlistIndex s = 0
      | Some pl \<Rightarrow> 0 \<le> playlistIndex s \<and> playlistIndex s < int (length pl))"

definition delivered_once :: "player \<Rightarrow> player \<Rightarrow> bool" where
  "delivered_once s s' =
     (settled s' \<and> index_ok s'
      \<and> track_changes_of (trace s')
          = track_changes_of (trace s)
              @ (if playlistIndex s' = playlistIndex s then [] else [playlistIndex s']))"

fun settles :: "op list \<Rightarrow> player \<Rightarrow> int list" where
  "settles [] s = []"
| "settles (c # cs) s =
     (let s' = state_of (apply_op c s)
      in (if (is_load c \<and> is_done (apply_op c s)) \<or> playlistIndex s' \<noteq> playlistIndex s
          then [playlistIndex s'] else [])
         @ settles cs s')"

section \<open>The display format in the words of the specification\<close>

text \<open>
  The reference the formatter is compared with: round the absolute value to whole
  seconds, split it into hours, minutes and seconds, leave the hours out when they are
  zero, put \<^verbatim>\<open>-\<close> in front of a negative input, and give the no-time string when
  there is no number (\<open>None\<close>). Seconds always have two digits, minutes have two digits
  after an hours field, and without one when padding is on.
\<close>

definition two_digits :: "nat \<Rightarrow> string" where
  "two_digits n = (if n < 10 then ''0'' @ nat_str n else nat_str n)"

definition display_time_ref :: "string \<Rightarrow> bool \<Rightarrow> real option \<Rightarrow> string" where
  "display_time_ref no_time pad x =
     (case x of
        None \<Rightarrow> no_time
      | Some v \<Rightarrow>
          (let total = nat (round \<bar>v\<bar>);
               hours = total div 3600;
               minutes = total div 60 mod 60;
               secs = total mod 60;
               sign = (if v < 0 then ''-'' else '''')
           in if hours = 0
              then sign @ (if pad then two_digits minutes else nat_str minutes)
                     @ '':'' @ two_digits secs
              else sign @ nat_str hours @ '':'' @ two_digits minutes @ '':'' @ two_digits secs))"

text \<open>
  The fields of a formatted time: the text between the colons, after the sign. The
  minutes field is the last but one. A field is zero-padded when it has more than one
  character and starts with \<^verbatim>\<open>0\<close>.
\<close>

fun split_colon :: "string \<Rightarrow> string list" where
  "split_colon [] = [[]]"
| "split_colon (c # cs) =
     (if c = CHR '':'' then [] # split_colon cs
      else (c # hd (split_colon cs)) # tl (split_colon cs))"

fun unsigned :: "string \<Rightarrow> string" where
  "unsigned [] = []"
| "unsigned (c # cs) = (if c = CHR ''-'' then cs else c # cs)"

definition time_fields :: "string \<Rightarrow> string list" where
  "time_fields str = split_colon (unsigned str)"

definition has_hours_field :: "string \<Rightarrow> bool" where
  "has_hours_field str = (length (time_fields str) = 3)"

definition minutes_field :: "string \<Rightarrow> string" where
  "minutes_field str = time_fields str ! (length (time_fields str) - 2)"

definition zero_padded :: "string \<Rightarrow> bool" where
  "zero_padded f = (1 < length f \<and> hd f = CHR ''0'')"

section \<open>Example states\<close>

definition demo_playlist :: "track list" where
  "demo_playlist =
     [[(''url'', ''/mp3/01.mp3'')], [(''url'', ''/mp3/02.mp3'')], [(''url'', ''/mp3/03.mp3'')]]"

text \<open>A player with two handlers registered and the three tracks loaded, and the same
  player after \<^verbatim>\<open>nextTrack()\<close> twice: playing, on the last track.\<close>

definition demo_loaded :: player where
  "demo_loaded =
     state_of (loadPlaylist (Some demo_playlist)
       (registerTrackChangeHandler True (registerPauseHandler True init_state)))"

definition demo_last :: player where
  "demo_last = state_of (nextTrack (state_of (nextTrack demo_loaded)))"

text \<open>Skip, pause, skip to the last track, let it end, and load the playlist again.\<close>

definition demo_ops :: "op list" where
  "demo_ops =
     [NextTrack, Pause, NextTrack, Tick \<lparr>audio_ended = True, audio_paused = False\<rparr>,
      LoadPlaylist (Some demo_playlist)]"

text \<open>A play promise that is rejected late: after \<^verbatim>\<open>play()\<close> the player is paused
  and another playlist is loaded, which sends no play command, before the rejection.\<close>

definition demo_rejected_late :: "op list" where
  "demo_rejected_late =
     [Play, Pause, LoadPlaylist (Some [[(''url'', ''/mp3/04.mp3'')]]), PlayRejected]"

text \<open>A value for the engine's conversion in the examples; none of them prints a number
  with it.\<close>

definition demo_engine_str :: "real \<Rightarrow> string" where
  "demo_engine_str x = ''1e+21''"

declare nat_str.simps [simp del]

section \<open>Each function as one update of the state\<close>

lemma handleUdfTrackChange_eq:
  "handleUdfTrackChange i s =
     s\<lparr>udfPrevTrackChangeHandlerIndex :=
          (if udfTrackChangeHandler s then Some i else udfPrevTrackChangeHandlerIndex s),
       trace := trace s @ track_change_calls i s\<rparr>"
  by (cases "udfTrackChangeHandler s"; cases "udfPrevTrackChangeHandlerIndex s = Some i";
      simp add: handleUdfTrackChange_def emit_def track_change_calls_def)

lemma pause_eq:
  "pause s = s\<lparr>playing := False,
               trace := trace s @ AudioPause # (if udfPauseHandler s then [UdfPause] else [])\<rparr>"
  by (simp add: pause_def handleUdfPause_def handleUdfNoArgFunction_def emit_def)

lemma stop_eq:
  "stop s = s\<lparr>playing := False, deferredInitialSeekTime := None,
              trace := trace s @ [AudioPause, AudioSetCurrentTime 0]
                         @ (if udfStopHandler s then [UdfStop] else [])\<rparr>"
  by (simp add: stop_def handleUdfStop_def handleUdfNoArgFunction_def emit_def)

lemma play_eq:
  "play s =
     s\<lparr>playing := True, deferredAudioSrc := None, deferredInitialSeekTime := None,
       udfPrevTrackChangeHandlerIndex :=
          (if udfTrackChangeHandler s then Some (playlistIndex s)
           else udfPrevTrackChangeHandlerIndex s),
       audio_src := (case deferredAudioSrc s of Some u \<Rightarrow> u | None \<Rightarrow> audio_src s),
       trace := trace s @ play_commands s @ track_change_calls (playlistIndex s) s
                  @ (if \<not> playing s \<and> udfPlayHandler s then [UdfPlay] else [])\<rparr>"
  by (cases "deferredAudioSrc s"; cases "deferredInitialSeekTime s"; cases "playing s";
      simp add: play_def Let_def handleUdfTrackChange_eq handleUdfPlay_def
        handleUdfNoArgFunction_def emit_def play_commands_def track_change_calls_def)

lemma assign_current_src_eq:
  "assign_current_src s =
     (case playlist s of
        None \<Rightarrow> Threw TypeError s
      | Some pl \<Rightarrow>
          if 0 \<le> playlistIndex s \<and> playlistIndex s < int (length pl)
          then Done (s\<lparr>audio_src := track_url (pl ! nat (playlistIndex s)),
                       trace := trace s @ [AudioSetSrc (track_url (pl ! nat (playlistIndex s)))]\<rparr>)
          else Threw TypeError s)"
  by (simp add: assign_current_src_def item_def emit_def split: option.splits)

lemma seeks_of_append: "seeks_of (xs @ ys) = seeks_of xs @ seeks_of ys"
  by (induction xs rule: seeks_of.induct) simp_all

lemma seeks_of_track_change_calls: "seeks_of (track_change_calls i s) = []"
  by (simp add: track_change_calls_def)

lemma missing_url_from_None: "missing_url_from i pl = None \<longleftrightarrow> (\<forall>t\<in>set pl. has_url t)"
  by (induction pl arbitrary: i) auto

subsection \<open>The example states, evaluated\<close>

lemma demo_loaded_eq:
  "demo_loaded =
     \<lparr> playlist = Some demo_playlist, playlistIndex = 0, playing = False,
       deferredAudioSrc = None, deferredInitialSeekTime = None,
       noTime = ''--:--'', displayTimeZeroPad = False,
       udfPlayHandler = False, udfPauseHandler = True, udfStopHandler = False,
       udfTrackChangeHandler = True, udfPrevTrackChangeHandlerIndex = Some 0,
       audio_src = ''/mp3/01.mp3'',
       trace = [AudioSetSrc ''/mp3/01.mp3'', UdfTrackChange 0] \<rparr>"
  by (simp add: demo_loaded_def demo_playlist_def init_state_def loadPlaylist_def
        registerTrackChangeHandler_def registerPauseHandler_def has_url_def track_url_def
        assign_current_src_eq clear_deferred_def handleUdfTrackChange_eq track_change_calls_def)

lemma demo_last_eq:
  "demo_last =
     \<lparr> playlist = Some demo_playlist, playlistIndex = 2, playing = True,
       deferredAudioSrc = None, deferredInitialSeekTime = None,
       noTime = ''--:--'', displayTimeZeroPad = False,
       udfPlayHandler = False, udfPauseHandler = True, udfStopHandler = False,
       udfTrackChangeHandler = True, udfPrevTrackChangeHandlerIndex = Some 2,
       audio_src = ''/mp3/03.mp3'',
       trace = [AudioSetSrc ''/mp3/01.mp3'', UdfTrackChange 0,
                AudioSetSrc ''/mp3/02.mp3'', UdfTrackChange 1, AudioPlay,
                AudioSetSrc ''/mp3/03.mp3'', UdfTrackChange 2, AudioPlay] \<rparr>"
  by (simp add: demo_last_def demo_loaded_eq nextTrack_def demo_playlist_def track_url_def
        assign_current_src_eq clear_deferred_def handleUdfTrackChange_eq track_change_calls_def
        play_eq play_commands_def)

section \<open>The formatter on finite numbers\<close>

lemma round_abs_nat: "js_round (js_abs (Fin v)) = Fin (real (nat (round \<bar>v\<bar>)))"
proof -
  have "0 \<le> round \<bar>v\<bar>" by (simp add: round_def)
  then show ?thesis by (simp add: round_def)
qed

lemma round_even_near: "\<bar>of_int (round_even y) - y\<bar> \<le> 1 / 2"
  unfolding round_even_def by (auto; linarith)

lemma round_even_of_int: "round_even (of_int k) = k"
  by (simp add: round_even_def)

lemma to_double_near:
  assumes "0 < x" and "x < 2 powr of_int (m + 1)"
  shows "\<bar>to_double x - x\<bar> \<le> 2 powr of_int (m - 52) / 2"
proof -
  define e where "e = \<lfloor>log 2 \<bar>x\<bar>\<rfloor>"
  define u where "u = (2::real) powr of_int (e - 52)"
  have "log 2 x < of_int (m + 1)" using assms by (simp add: log_less_iff)
  then have "e < m + 1" unfolding e_def using assms(1)
    by (simp add: floor_le_iff abs_of_pos)
  then have "e - 52 \<le> m - 52" by simp
  then have um: "u \<le> 2 powr of_int (m - 52)" unfolding u_def by (intro powr_mono) simp_all
  have u0: "0 < u" unfolding u_def by simp
  have "to_double x = u * of_int (round_even (x / u))"
    using assms(1) by (simp add: to_double_def Let_def e_def u_def)
  then have "to_double x - x = u * (of_int (round_even (x / u)) - x / u)"
    using u0 by (simp add: algebra_simps)
  then have "\<bar>to_double x - x\<bar> = u * \<bar>of_int (round_even (x / u)) - x / u\<bar>"
    using u0 by (simp add: abs_mult)
  also have "\<dots> \<le> u * (1 / 2)"
    using u0 round_even_near [of "x / u"] by (intro mult_left_mono) simp_all
  finally show ?thesis using um by simp
qed

lemma to_double_nat:
  assumes "k < 2 ^ 53"
  shows "to_double (real k) = real k"
proof (cases "k = 0")
  case True
  then show ?thesis by (simp add: to_double_def)
next
  case False
  define e where "e = \<lfloor>log 2 \<bar>real k\<bar>\<rfloor>"
  define u where "u = (2::real) powr of_int (e - 52)"
  have k1: "1 \<le> real k" using False by simp
  have "0 \<le> log 2 (real k)" using k1 by simp
  then have e0: "0 \<le> e" unfolding e_def by simp
  have "real k < 2 powr of_int 53" using assms
    by (simp add: powr_int)
  then have "log 2 (real k) < of_int 53" using k1 by (simp add: log_less_iff del: of_int_numeral)
  then have e52: "e \<le> 52" unfolding e_def by (simp add: floor_less_iff)
  have "(2::real) powr of_int (e - 52) = 1 / 2 ^ nat (- (e - 52))"
    using e52 by (cases "e = 52") (simp_all add: powr_int del: of_int_diff)
  then have u: "u = 1 / 2 ^ nat (52 - e)" unfolding u_def by simp
  have r: "round_even (real k * 2 ^ nat (52 - e)) = int k * 2 ^ nat (52 - e)"
    using round_even_of_int [of "int k * 2 ^ nat (52 - e)"] by simp
  have "to_double (real k) = u * of_int (round_even (real k / u))"
    using False by (simp add: to_double_def Let_def e_def u_def)
  then show ?thesis by (simp add: u r)
qed

lemma floor_to_double_quot:
  assumes "0 < d" and "real n / real d < 2 powr of_int (m + 1)"
    and "2 powr of_int (m - 52) / 2 < 1 / real d" and "n div d < 2 ^ 53"
  shows "\<lfloor>to_double (real n / real d)\<rfloor> = int (n div d)"
proof (cases "n mod d = 0")
  case True
  then have "real n / real d = real (n div d)"
    using assms(1) by (simp add: real_of_nat_div mod_eq_0_iff_dvd)
  then show ?thesis using to_double_nat [OF assms(4)] by simp
next
  case False
  define q where "q = real n / real d"
  define r where "r = n mod d"
  have r1: "1 \<le> r" "r < d" using False assms(1) by (simp_all add: r_def)
  have "real n = real d * real (n div d) + real r"
    unfolding r_def by (metis of_nat_add of_nat_mult mult_div_mod_eq)
  then have q: "q = real (n div d) + real r / real d"
    unfolding q_def using assms(1) by (simp add: field_simps)
  have lo: "1 / real d \<le> real r / real d" using r1 assms(1) by (simp add: field_simps)
  have "real r \<le> real d - 1" using r1 by linarith
  then have hi: "real r / real d \<le> 1 - 1 / real d" using assms(1) by (simp add: field_simps)
  have "0 < 1 / real d" using assms(1) by simp
  then have q0: "0 < q" using q lo by linarith
  have "\<bar>to_double q - q\<bar> \<le> 2 powr of_int (m - 52) / 2"
    using q0 assms(2) unfolding q_def by (rule to_double_near)
  then have "\<bar>to_double q - q\<bar> < 1 / real d" using assms(3) by linarith
  then have "real (n div d) < to_double q" and "to_double q < real (n div d) + 1"
    using q lo hi by linarith+
  then have "\<lfloor>to_double q\<rfloor> = int (n div d)" by linarith
  then show ?thesis unfolding q_def .
qed

lemma floor_to_double_60:
  assumes "n < 2 ^ 53"
  shows "\<lfloor>to_double (real n / 60)\<rfloor> = int (n div 60)"
proof -
  have n: "real n < 2 ^ 53" using assms by (metis of_nat_less_numeral_power_cancel_iff)
  have "real n / real 60 < 2 powr of_int (47 + 1)" using n by (simp add: powr_int)
  moreover have "(2::real) powr of_int (47 - 52) / 2 < 1 / real 60"
    by (simp add: powr_neg_numeral)
  moreover have "n div 60 < 2 ^ 53" using assms by (simp add: div_le_dividend le_less_trans)
  ultimately show ?thesis using floor_to_double_quot [of 60 n 47] by simp
qed

lemma floor_to_double_3600:
  assumes "n < 2 ^ 53"
  shows "\<lfloor>to_double (real n / 3600)\<rfloor> = int (n div 3600)"
proof -
  have n: "real n < 2 ^ 53" using assms by (metis of_nat_less_numeral_power_cancel_iff)
  have "real n / real 3600 < 2 powr of_int (41 + 1)" using n by (simp add: powr_int)
  moreover have "(2::real) powr of_int (41 - 52) / 2 < 1 / real 3600"
    by (simp add: powr_neg_numeral)
  moreover have "n div 3600 < 2 ^ 53" using assms by (simp add: div_le_dividend le_less_trans)
  ultimately show ?thesis using floor_to_double_quot [of 3600 n 41] by simp
qed

lemma floor_div_60:
  "n < 2 ^ 53 \<Longrightarrow> js_floor (js_div (Fin (real n)) 60) = Fin (real (n div 60))"
  by (simp add: floor_to_double_60)

lemma floor_div_3600:
  "n < 2 ^ 53 \<Longrightarrow> js_floor (js_div (Fin (real n)) 3600) = Fin (real (n div 3600))"
  by (simp add: floor_to_double_3600)

lemma mod_nat: "js_mod (Fin (real n)) (numeral k) = Fin (real (n mod numeral k))"
proof -
  have f: "\<lfloor>real n / numeral k\<rfloor> = int (n div numeral k)"
    using floor_divide_of_nat_eq [of n "numeral k", where ?'a = real] by simp
  have "real n = real (numeral k * (n div numeral k) + n mod numeral k)" by simp
  also have "\<dots> = numeral k * real (n div numeral k) + real (n mod numeral k)"
    by (simp only: of_nat_add of_nat_mult of_nat_numeral)
  finally have "real n - numeral k * real (n div numeral k) = real (n mod numeral k)" by linarith
  then show ?thesis using f by simp
qed

lemma round_nat: "js_round (Fin (real n)) = Fin (real n)"
proof -
  have "\<lfloor>real n + 1 / 2\<rfloor> = int n" by linarith
  then show ?thesis by simp
qed

lemma str_nat: "n < 2 ^ 53 \<Longrightarrow> js_str engine_str (Fin (real n)) = nat_str n"
proof -
  assume "n < 2 ^ 53"
  then have "real n < 2 ^ 53" by (metis of_nat_less_numeral_power_cancel_iff)
  then show ?thesis by simp
qed

lemma lt_nat: "js_lt (Fin (real n)) (numeral k) = (n < numeral k)"
  by simp

lemma gt_nat: "js_gt (Fin (real n)) 0 = (0 < n)"
  by simp

lemma secondsToDisplayTime_Fin_eq:
  assumes "nat (round \<bar>v\<bar>) < 2 ^ 53"
  shows "secondsToDisplayTime engine_str s (Fin v) =
     (let total = nat (round \<bar>v\<bar>) in
      if 0 < total div 3600
      then (if v < 0 then ''-'' else []) @ nat_str (total div 3600) @ '':'' @
           two_digits (total div 60 mod 60) @ '':'' @ two_digits (total mod 60)
      else (if v < 0 then ''-'' else []) @
           (if displayTimeZeroPad s \<and> total div 60 < 10
            then ''0'' @ nat_str (total div 60) else nat_str (total div 60)) @
           '':'' @ two_digits (total mod 60))"
proof -
  define total where "total = nat (round \<bar>v\<bar>)"
  have t: "total < 2 ^ 53" using assms by (simp add: total_def)
  have b: "total div 3600 < 2 ^ 53" "total div 60 < 2 ^ 53" "total mod 60 < 2 ^ 53"
    "total div 60 mod 60 < 2 ^ 53"
    using t by (simp_all add: div_le_dividend le_less_trans mod_less_eq_dividend)
  show ?thesis
    unfolding secondsToDisplayTime_def round_abs_nat total_def [symmetric]
      floor_div_60 [OF t] floor_div_3600 [OF t] mod_nat round_nat
      str_nat [OF b(1)] str_nat [OF b(2)] str_nat [OF b(3)] str_nat [OF b(4)]
      lt_nat gt_nat Let_def two_digits_def
    by (simp only: js_isNaN.simps js_lt.simps if_False)
qed

lemma secondsToDisplayTime_Fin:
  assumes "nat (round \<bar>v\<bar>) < 2 ^ 53"
  shows "secondsToDisplayTime engine_str s (Fin v)
           = display_time_ref (noTime s) (displayTimeZeroPad s) (Some v)"
proof -
  define total where "total = nat (round \<bar>v\<bar>)"
  note src = secondsToDisplayTime_Fin_eq [OF assms, of engine_str s]
  have ref: "display_time_ref (noTime s) (displayTimeZeroPad s) (Some v) =
     (if total div 3600 = 0
      then (if v < 0 then ''-'' else []) @
           (if displayTimeZeroPad s then two_digits (total div 60 mod 60)
            else nat_str (total div 60 mod 60)) @ '':'' @ two_digits (total mod 60)
      else (if v < 0 then ''-'' else []) @ nat_str (total div 3600) @ '':'' @
           two_digits (total div 60 mod 60) @ '':'' @ two_digits (total mod 60))"
    by (simp only: display_time_ref_def option.case Let_def total_def)
  show ?thesis
  proof (cases "total div 3600 = 0")
    case True
    then have "total < 3600" by (simp add: div_eq_0_iff)
    then have "total div 60 < 60" by simp
    then have m: "total div 60 mod 60 = total div 60" by simp
    show ?thesis unfolding src ref m Let_def total_def [symmetric]
      using True by (simp add: two_digits_def)
  next
    case False
    then show ?thesis unfolding src ref Let_def total_def [symmetric]
      by simp
  qed
qed

subsection \<open>Examples, and a division that is not exact\<close>

lemma display_examples:
  "secondsToDisplayTime engine_str init_state (Fin 0) = ''0:00''"
  "secondsToDisplayTime engine_str init_state (Fin 65) = ''1:05''"
  "secondsToDisplayTime engine_str init_state (Fin (- 65)) = ''-1:05''"
  "secondsToDisplayTime engine_str init_state (Fin 3661) = ''1:01:01''"
  "secondsToDisplayTime engine_str init_state (Fin 42) = ''0:42''"
  "secondsToDisplayTime engine_str (enableDisplayTimeZeroPad init_state) (Fin 42) = ''00:42''"
proof -
  have r: "nat (round \<bar>0 :: real\<bar>) = 0" "nat (round \<bar>65 :: real\<bar>) = 65"
    "nat (round \<bar>- 65 :: real\<bar>) = 65" "nat (round \<bar>3661 :: real\<bar>) = 3661"
    "nat (round \<bar>42 :: real\<bar>) = 42"
    by (simp_all add: round_def)
  have b: "(0::nat) < 2 ^ 53" "(65::nat) < 2 ^ 53" "(3661::nat) < 2 ^ 53" "(42::nat) < 2 ^ 53"
    by simp_all
  show "secondsToDisplayTime engine_str init_state (Fin 0) = ''0:00''"
    using b(1) by (subst secondsToDisplayTime_Fin_eq; unfold r)
      (simp_all add: two_digits_def nat_str.simps digit_char_def init_state_def)
  show "secondsToDisplayTime engine_str init_state (Fin 65) = ''1:05''"
    using b(2) by (subst secondsToDisplayTime_Fin_eq; unfold r)
      (simp_all add: two_digits_def nat_str.simps digit_char_def init_state_def)
  show "secondsToDisplayTime engine_str init_state (Fin (- 65)) = ''-1:05''"
    using b(2) by (subst secondsToDisplayTime_Fin_eq; unfold r)
      (simp_all add: two_digits_def nat_str.simps digit_char_def init_state_def)
  show "secondsToDisplayTime engine_str init_state (Fin 3661) = ''1:01:01''"
    using b(3) by (subst secondsToDisplayTime_Fin_eq; unfold r)
      (simp_all add: two_digits_def nat_str.simps digit_char_def init_state_def)
  show "secondsToDisplayTime engine_str init_state (Fin 42) = ''0:42''"
    using b(4) by (subst secondsToDisplayTime_Fin_eq; unfold r)
      (simp_all add: two_digits_def nat_str.simps digit_char_def init_state_def)
  show "secondsToDisplayTime engine_str (enableDisplayTimeZeroPad init_state) (Fin 42) = ''00:42''"
    using b(4) by (subst secondsToDisplayTime_Fin_eq; unfold r)
      (simp_all add: two_digits_def nat_str.simps digit_char_def init_state_def
         enableDisplayTimeZeroPad_def)
qed

lemma to_double_at:
  assumes "2 powr of_int e \<le> x" and "x < 2 powr of_int (e + 1)"
  shows "to_double x = 2 powr of_int (e - 52) * of_int (round_even (x / 2 powr of_int (e - 52)))"
proof -
  have "0 < (2::real) powr of_int e" by simp
  then have x: "0 < x" using assms(1) by linarith
  then have "\<lfloor>log 2 x\<rfloor> = e" using assms by (simp add: floor_log_eq_powr_iff)
  then show ?thesis using x by (simp add: to_double_def Let_def abs_of_pos)
qed

lemma big_minutes: "\<lfloor>to_double (70438513471906136 / 60)\<rfloor> = 1173975224531769"
proof -
  have "to_double (70438513471906136 / 60)
          = 2 powr of_int (50 - 52) * of_int (round_even (70438513471906136 / 60 / 2 powr of_int (50 - 52)))"
    by (rule to_double_at) (simp_all add: powr_int)
  also have "(2::real) powr of_int (50 - 52) = 1 / 4" by (simp add: powr_neg_numeral)
  also have "round_even (70438513471906136 / 60 / (1 / 4)) = 4695900898127076"
    by (simp add: round_even_def)
  finally have e: "to_double (70438513471906136 / 60) = 1 / 4 * real_of_int 4695900898127076" .
  show ?thesis by (subst e) simp
qed

lemma big_hours: "\<lfloor>to_double (70438513471906136 / 3600)\<rfloor> = 19566253742196"
proof -
  have "to_double (70438513471906136 / 3600)
          = 2 powr of_int (44 - 52) * of_int (round_even (70438513471906136 / 3600 / 2 powr of_int (44 - 52)))"
    by (rule to_double_at) (simp_all add: powr_int)
  also have "(2::real) powr of_int (44 - 52) = 1 / 256" by (simp add: powr_neg_numeral)
  also have "round_even (70438513471906136 / 3600 / (1 / 256)) = 5008960958002214"
    by (simp add: round_even_def)
  finally have e: "to_double (70438513471906136 / 3600) = 1 / 256 * real_of_int 5008960958002214" .
  show ?thesis by (subst e) simp
qed

subsection \<open>Digits and fields\<close>

lemma digit_char_cases:
  "d < 10 \<Longrightarrow> digit_char d \<noteq> CHR '':'' \<and> digit_char d \<noteq> CHR ''-''
     \<and> (digit_char d = CHR ''0'' \<longleftrightarrow> d = 0)"
  unfolding digit_char_def
  by (auto simp: less_Suc_eq numeral_eq_Suc)

lemma nat_str_chars: "CHR '':'' \<notin> set (nat_str n) \<and> CHR ''-'' \<notin> set (nat_str n)"
proof (induction n rule: nat_str.induct)
  case (1 n)
  show ?case
  proof (cases "n < 10")
    case True
    then show ?thesis using digit_char_cases [of n] by (auto simp: nat_str.simps [of n])
  next
    case False
    have "n mod 10 < 10" by simp
    then show ?thesis
      using False 1 digit_char_cases [of "n mod 10"] by (auto simp: nat_str.simps [of n])
  qed
qed

lemma nat_str_no_colon: "CHR '':'' \<notin> set (nat_str n)"
  using nat_str_chars [of n] by simp

lemma nat_str_no_minus: "CHR ''-'' \<notin> set (nat_str n)"
  using nat_str_chars [of n] by simp

lemma nat_str_nonempty: "nat_str n \<noteq> []"
  by (subst nat_str.simps) simp

lemma nat_str_length: "length (nat_str n) = 1 \<longleftrightarrow> n < 10"
proof (cases "n < 10")
  case True
  then show ?thesis by (simp add: nat_str.simps [of n])
next
  case False
  then show ?thesis using nat_str_nonempty [of "n div 10"]
    by (simp add: nat_str.simps [of n])
qed

lemma nat_str_hd: "hd (nat_str n) = CHR ''0'' \<longleftrightarrow> n = 0"
proof (induction n rule: nat_str.induct)
  case (1 n)
  show ?case
  proof (cases "n < 10")
    case True
    then show ?thesis using digit_char_cases [of n] by (simp add: nat_str.simps [of n])
  next
    case False
    then have "n div 10 \<noteq> 0" by simp
    then show ?thesis
      using False 1 nat_str_nonempty [of "n div 10"] by (simp add: nat_str.simps [of n])
  qed
qed

lemma split_colon_plain: "CHR '':'' \<notin> set a \<Longrightarrow> split_colon a = [a]"
  by (induction a) auto

lemma split_colon_append:
  "CHR '':'' \<notin> set a \<Longrightarrow> split_colon (a @ CHR '':'' # b) = a # split_colon b"
  by (induction a) auto

lemma unsigned_sign:
  "a \<noteq> [] \<Longrightarrow> hd a \<noteq> CHR ''-'' \<Longrightarrow> unsigned ((if neg then ''-'' else []) @ a @ b) = a @ b"
  by (cases a) auto

lemma two_digits_length: "n < 100 \<Longrightarrow> length (two_digits n) = 2"
proof -
  assume n: "n < 100"
  show ?thesis
  proof (cases "n < 10")
    case True
    then show ?thesis using nat_str_length [of n] by (simp add: two_digits_def)
  next
    case False
    then have "n div 10 < 10" using n by simp
    then show ?thesis using False nat_str_length [of "n div 10"]
      by (simp add: two_digits_def nat_str.simps [of n])
  qed
qed

lemma two_digits_no_colon: "CHR '':'' \<notin> set (two_digits n)"
  using nat_str_no_colon [of n] by (simp add: two_digits_def)

lemma two_digits_hd: "hd (two_digits n) = CHR ''0'' \<longleftrightarrow> n < 10"
  using nat_str_hd [of n] by (auto simp: two_digits_def)

lemma nat_str_hd_minus: "hd (nat_str n) \<noteq> CHR ''-''"
  using nat_str_no_minus [of n] nat_str_nonempty [of n] hd_in_set [of "nat_str n"] by metis

lemma time_fields_two:
  assumes "a \<noteq> []" and "hd a \<noteq> CHR ''-''" and "CHR '':'' \<notin> set a" and "CHR '':'' \<notin> set b"
  shows "time_fields ((if neg then ''-'' else []) @ a @ '':'' @ b) = [a, b]"
proof -
  have "unsigned ((if neg then ''-'' else []) @ a @ '':'' @ b) = a @ '':'' @ b"
    using assms(1,2) by (rule unsigned_sign)
  then show ?thesis
    using assms(3,4) by (simp add: time_fields_def split_colon_append split_colon_plain)
qed

lemma time_fields_three:
  assumes "a \<noteq> []" and "hd a \<noteq> CHR ''-''" and "CHR '':'' \<notin> set a" and "CHR '':'' \<notin> set b"
    and "CHR '':'' \<notin> set c"
  shows "time_fields ((if neg then ''-'' else []) @ a @ '':'' @ b @ '':'' @ c) = [a, b, c]"
proof -
  have "unsigned ((if neg then ''-'' else []) @ a @ '':'' @ b @ '':'' @ c)
          = a @ '':'' @ b @ '':'' @ c"
    using assms(1,2) by (rule unsigned_sign)
  then show ?thesis
    using assms(3,4,5) by (simp add: time_fields_def split_colon_append split_colon_plain)
qed

lemma fields_with_hours:
  assumes "3600 \<le> nat (round \<bar>v\<bar>)" and "nat (round \<bar>v\<bar>) < 2 ^ 53"
  shows "time_fields (secondsToDisplayTime engine_str s (Fin v))
           = [nat_str (nat (round \<bar>v\<bar>) div 3600),
              two_digits (nat (round \<bar>v\<bar>) div 60 mod 60),
              two_digits (nat (round \<bar>v\<bar>) mod 60)]"
proof -
  have h: "0 < nat (round \<bar>v\<bar>) div 3600" using assms(1) by (simp add: div_greater_zero_iff)
  show ?thesis
    unfolding secondsToDisplayTime_Fin_eq [OF assms(2)] Let_def using h
    by (simp only: if_True)
       (rule time_fields_three, simp_all add: nat_str_nonempty nat_str_hd_minus nat_str_no_colon
          two_digits_no_colon)
qed

lemma fields_without_hours:
  assumes "nat (round \<bar>v\<bar>) < 3600"
  shows "time_fields (secondsToDisplayTime engine_str s (Fin v))
           = [if displayTimeZeroPad s \<and> nat (round \<bar>v\<bar>) div 60 < 10
              then ''0'' @ nat_str (nat (round \<bar>v\<bar>) div 60)
              else nat_str (nat (round \<bar>v\<bar>) div 60),
              two_digits (nat (round \<bar>v\<bar>) mod 60)]"
proof -
  have h: "\<not> 0 < nat (round \<bar>v\<bar>) div 3600" using assms by simp
  have b: "nat (round \<bar>v\<bar>) < 2 ^ 53" using assms by simp
  show ?thesis
    unfolding secondsToDisplayTime_Fin_eq [OF b] Let_def using h
    by (simp only: if_False)
       (rule time_fields_two, simp_all add: nat_str_nonempty nat_str_hd_minus nat_str_no_colon
          two_digits_no_colon)
qed

section \<open>Calls of the track-change handler\<close>

lemma track_changes_of_append:
  "track_changes_of (xs @ ys) = track_changes_of xs @ track_changes_of ys"
  by (induction xs rule: track_changes_of.induct) simp_all

lemma last_of_last_of: "last_of (last_of xs @ ys) = last_of (xs @ ys)"
  by (simp add: last_of_def)

lemma distinct_adj_glue:
  "distinct_adj xs \<Longrightarrow> distinct_adj (last_of xs @ ys) \<Longrightarrow> distinct_adj (xs @ ys)"
  by (cases "xs = []") (auto simp: last_of_def distinct_adj_append_iff distinct_adj_Cons)

lemma remembered_distinct_adj: "distinct_adj (remembered s)"
  by (simp add: remembered_def split: option.splits)

lemma last_of_remembered: "last_of (remembered s) = remembered s"
  by (simp add: remembered_def last_of_def split: option.splits)

lemma follows_refl: "follows s s"
  unfolding follows_def
  by (rule exI [of _ "[]"]) (simp add: remembered_distinct_adj last_of_remembered)

lemma follows_trans:
  assumes "follows s s'" and "follows s' s''"
  shows "follows s s''"
proof -
  from assms(1) obtain d where d: "track_changes_of (trace s') = track_changes_of (trace s) @ d"
    "distinct_adj (remembered s @ d)" "remembered s' = last_of (remembered s @ d)"
    unfolding follows_def by blast
  from assms(2) obtain e where e: "track_changes_of (trace s'') = track_changes_of (trace s') @ e"
    "distinct_adj (remembered s' @ e)" "remembered s'' = last_of (remembered s' @ e)"
    unfolding follows_def by blast
  have "distinct_adj ((remembered s @ d) @ e)"
    using d(2) e(2) unfolding d(3) by (rule distinct_adj_glue)
  moreover have "remembered s'' = last_of ((remembered s @ d) @ e)"
    unfolding e(3) d(3) by (rule last_of_last_of)
  ultimately show ?thesis
    unfolding follows_def using d(1) e(1) by (intro exI [of _ "d @ e"]) simp
qed

lemma follows_frame:
  assumes "trace s' = trace s @ t" and "track_changes_of t = []"
    and "udfPrevTrackChangeHandlerIndex s' = udfPrevTrackChangeHandlerIndex s"
  shows "follows s s'"
  unfolding follows_def using assms
  by (intro exI [of _ "[]"])
     (simp add: track_changes_of_append remembered_def last_of_def split: option.splits)

lemma follows_handleUdfTrackChange: "follows s (handleUdfTrackChange i s)"
  unfolding follows_def handleUdfTrackChange_eq
  by (intro exI [of _ "track_changes_of (track_change_calls i s)"])
     (auto simp: track_changes_of_append remembered_def last_of_def track_change_calls_def
        split: option.splits)

lemma follows_pause: "follows s (pause s)"
  by (rule follows_frame [where t = "AudioPause # (if udfPauseHandler s then [UdfPause] else [])"])
     (simp_all add: pause_eq)

lemma follows_stop: "follows s (stop s)"
  by (rule follows_frame [where t = "[AudioPause, AudioSetCurrentTime 0]
                                       @ (if udfStopHandler s then [UdfStop] else [])"])
     (simp_all add: stop_eq)

lemma follows_seek: "follows s (seek x s)"
  by (rule follows_frame [where t = "if playing s then [AudioSetCurrentTime x] else []"])
     (simp_all add: seek_def emit_def)

lemma follows_play: "follows s (play s)"
proof -
  define s4 where "s4 = s\<lparr>playing := True, deferredAudioSrc := None,
       deferredInitialSeekTime := None,
       audio_src := (case deferredAudioSrc s of Some u \<Rightarrow> u | None \<Rightarrow> audio_src s),
       trace := trace s @ play_commands s\<rparr>"
  define s5 where "s5 = handleUdfTrackChange (playlistIndex s4) s4"
  have a: "follows s s4"
    by (rule follows_frame [where t = "play_commands s"])
       (simp_all add: s4_def play_commands_def split: option.splits)
  have b: "follows s4 s5" unfolding s5_def by (rule follows_handleUdfTrackChange)
  have c: "follows s5 (play s)"
    by (rule follows_frame [where t = "if \<not> playing s \<and> udfPlayHandler s then [UdfPlay] else []"])
       (simp_all add: s5_def s4_def play_eq handleUdfTrackChange_eq track_change_calls_def)
  show ?thesis using a b c by (blast intro: follows_trans)
qed

lemma follows_play_catch: "follows s (play_catch s)"
proof -
  have "follows s (s\<lparr>deferredAudioSrc := Some (audio_src s)\<rparr>)"
    by (rule follows_frame [where t = "[]"]) simp_all
  then show ?thesis unfolding play_catch_def by (blast intro: follows_trans follows_pause)
qed

lemma follows_clear_deferred: "follows s (clear_deferred s)"
  by (rule follows_frame [where t = "[]"]) (simp_all add: clear_deferred_def)

lemma follows_index: "follows s (s\<lparr>playlistIndex := i\<rparr>)"
  by (rule follows_frame [where t = "[]"]) simp_all

lemma follows_assign_current_src: "follows s (state_of (assign_current_src s))"
proof (cases "assign_current_src s")
  case (Done s')
  then show ?thesis
    by (intro follows_frame [where t = "[AudioSetSrc (audio_src s')]"])
       (auto simp: assign_current_src_eq split: option.splits if_splits)
next
  case (Threw e s')
  then have "s' = s" by (auto simp: assign_current_src_eq split: option.splits if_splits)
  then show ?thesis using Threw by (simp add: follows_refl)
qed

lemma follows_then_do:
  assumes "follows s (state_of r)" and "\<And>s1. follows s1 (state_of (f s1))"
  shows "follows s (state_of (then_do r f))"
proof (cases r)
  case (Done s1)
  then show ?thesis using assms(1) assms(2) [of s1] by (auto intro: follows_trans)
next
  case (Threw e s1)
  then show ?thesis using assms(1) by simp
qed

lemma follows_dispatch_play:
  "follows s1 (state_of (Done (play (handleUdfTrackChange (playlistIndex s1) s1))))"
  using follows_handleUdfTrackChange follows_play by (auto intro: follows_trans)

lemma follows_assign_cleared: "follows s (state_of (assign_current_src (clear_deferred s)))"
  using follows_clear_deferred follows_assign_current_src by (blast intro: follows_trans)

lemma follows_nextTrack: "follows s (state_of (nextTrack s))"
  unfolding nextTrack_def
  by (intro follows_then_do follows_dispatch_play follows_assign_cleared)
     (auto simp: follows_refl follows_index split: option.splits)

lemma follows_prevTrack: "follows s (state_of (prevTrack s))"
  unfolding prevTrack_def
  by (intro follows_then_do follows_dispatch_play follows_assign_cleared)
     (auto simp: follows_refl follows_index split: option.splits)

lemma follows_play_cleared: "follows s1 (state_of (Done (play (clear_deferred s1))))"
  using follows_clear_deferred follows_play by (auto intro: follows_trans)

lemma follows_playTrack: "follows s (state_of (playTrack i s))"
proof -
  have a: "follows s (state_of (if i \<noteq> playlistIndex s
                   then assign_current_src (s\<lparr>playlistIndex := i\<rparr>) else Done s))"
    using follows_index [of s i] follows_assign_current_src [of "s\<lparr>playlistIndex := i\<rparr>"]
    by (auto intro: follows_trans simp: follows_refl)
  show ?thesis
    unfolding playTrack_def
    using follows_then_do [OF a, of "\<lambda>s1. Done (play (clear_deferred s1))"] follows_play_cleared
    by (auto simp: follows_refl split: option.splits)
qed

lemma follows_tick: "follows s (state_of (playStateIntervalHandler a s))"
proof -
  have b: "follows s (state_of (assign_current_src ((pause s)\<lparr>playlistIndex := 0\<rparr>)))"
    using follows_pause [of s] follows_index [of "pause s" 0]
      follows_assign_current_src [of "(pause s)\<lparr>playlistIndex := 0\<rparr>"]
    by (blast intro: follows_trans)
  have c: "follows s1 (state_of (let s2 = clear_deferred s1
                            in Done (handleUdfTrackChange (playlistIndex s2) s2)))" for s1
    using follows_clear_deferred [of s1]
      follows_handleUdfTrackChange [of "clear_deferred s1" "playlistIndex (clear_deferred s1)"]
    unfolding Let_def state_of.simps by (rule follows_trans)
  show ?thesis
    unfolding playStateIntervalHandler_def
    using follows_then_do [OF b, of "\<lambda>s1. let s2 = clear_deferred s1
                            in Done (handleUdfTrackChange (playlistIndex s2) s2)"] c
    by (auto simp: follows_refl follows_nextTrack follows_pause follows_play split: option.splits)
qed

lemma follows_apply_op: "\<not> is_load c \<Longrightarrow> follows s (state_of (apply_op c s))"
proof (cases c)
  case (RegisterTrackChangeHandler h)
  then show ?thesis
    by (simp add: registerTrackChangeHandler_def follows_frame [where t = "[]"])
next
  case (RegisterPlayHandler h)
  then show ?thesis by (simp add: registerPlayHandler_def follows_frame [where t = "[]"])
next
  case (RegisterPauseHandler h)
  then show ?thesis by (simp add: registerPauseHandler_def follows_frame [where t = "[]"])
next
  case (RegisterStopHandler h)
  then show ?thesis by (simp add: registerStopHandler_def follows_frame [where t = "[]"])
next
  case (SetNoTimeDisplay v)
  then show ?thesis by (simp add: setNoTimeDisplay_def follows_frame [where t = "[]"])
next
  case EnableDisplayTimeZeroPad
  then show ?thesis by (simp add: enableDisplayTimeZeroPad_def follows_frame [where t = "[]"])
next
  case PlayPause
  then show ?thesis by (simp add: playPause_def follows_pause follows_play)
qed (simp_all add: follows_play follows_stop follows_pause follows_seek follows_prevTrack
       follows_nextTrack follows_playTrack follows_tick follows_play_catch)

lemma follows_run: "\<forall>c\<in>set ops. \<not> is_load c \<Longrightarrow> follows s (run ops s)"
proof (induction ops arbitrary: s)
  case Nil
  then show ?case by (simp add: follows_refl)
next
  case (Cons c cs)
  then have "follows s (state_of (apply_op c s))" by (simp add: follows_apply_op)
  moreover have "follows (state_of (apply_op c s)) (run cs (state_of (apply_op c s)))"
    using Cons by simp
  ultimately show ?case by (auto intro: follows_trans)
qed

subsection \<open>Settled states\<close>

lemma track_changes_of_play_commands: "track_changes_of (play_commands s) = []"
  by (simp add: play_commands_def split: option.splits)

lemmas step_simps = settled_def index_ok_def delivered_once_def track_changes_of_append
  track_changes_of_play_commands track_change_calls_def

lemma once_play: "settled s \<Longrightarrow> index_ok s \<Longrightarrow> delivered_once s (play s)"
  by (auto simp: step_simps play_eq split: option.splits)

lemma once_pause: "settled s \<Longrightarrow> index_ok s \<Longrightarrow> delivered_once s (pause s)"
  by (auto simp: step_simps pause_eq split: option.splits)

lemma once_stop: "settled s \<Longrightarrow> index_ok s \<Longrightarrow> delivered_once s (stop s)"
  by (auto simp: step_simps stop_eq split: option.splits)

lemma once_seek: "settled s \<Longrightarrow> index_ok s \<Longrightarrow> delivered_once s (seek x s)"
  by (auto simp: step_simps seek_def emit_def split: option.splits)

lemma once_play_catch: "settled s \<Longrightarrow> index_ok s \<Longrightarrow> delivered_once s (play_catch s)"
  by (auto simp: step_simps play_catch_def pause_eq split: option.splits)

lemma once_nextTrack:
  "settled s \<Longrightarrow> index_ok s \<Longrightarrow> delivered_once s (state_of (nextTrack s))"
  by (cases "playlist s")
     (auto simp: step_simps nextTrack_def assign_current_src_eq clear_deferred_def
        handleUdfTrackChange_eq play_eq)

lemma once_prevTrack:
  "settled s \<Longrightarrow> index_ok s \<Longrightarrow> delivered_once s (state_of (prevTrack s))"
  by (cases "playlist s")
     (auto simp: step_simps prevTrack_def assign_current_src_eq clear_deferred_def
        handleUdfTrackChange_eq play_eq)

lemma once_playTrack:
  "settled s \<Longrightarrow> index_ok s \<Longrightarrow> delivered_once s (state_of (playTrack i s))"
  by (cases "playlist s")
     (auto simp: step_simps playTrack_def assign_current_src_eq clear_deferred_def play_eq)

lemma once_tick:
  "settled s \<Longrightarrow> index_ok s \<Longrightarrow> delivered_once s (state_of (playStateIntervalHandler a s))"
proof (cases "playing s \<and> audio_ended a")
  case False
  assume "settled s" "index_ok s"
  then show ?thesis
    using False once_pause [of s] once_play [of s]
    by (auto simp: playStateIntervalHandler_def) (simp_all add: step_simps)
next
  case True
  assume s: "settled s" "index_ok s"
  show ?thesis
  proof (cases "playlist s")
    case None
    then show ?thesis using True s by (simp add: playStateIntervalHandler_def step_simps)
  next
    case (Some pl)
    show ?thesis
    proof (cases "playlistIndex s < int (length pl) - 1")
      case l: True
      then show ?thesis using True Some s once_nextTrack [of s]
        by (simp add: playStateIntervalHandler_def)
    next
      case l: False
      then show ?thesis using True Some s
        by (auto simp: playStateIntervalHandler_def step_simps assign_current_src_eq pause_eq
              clear_deferred_def handleUdfTrackChange_eq)
    qed
  qed
qed

lemma once_apply_op:
  assumes "settled s" and "index_ok s" and "\<not> is_load c"
    and "c \<noteq> RegisterTrackChangeHandler False"
  shows "delivered_once s (state_of (apply_op c s))"
proof (cases c)
  case (LoadPlaylist up)
  then show ?thesis using assms(3) by simp
next
  case (RegisterTrackChangeHandler h)
  then show ?thesis using assms by (auto simp: step_simps registerTrackChangeHandler_def split: option.splits)
next
  case PlayPause
  then show ?thesis using assms once_pause [of s] once_play [of s] by (simp add: playPause_def)
next
  case (RegisterPlayHandler h)
  then show ?thesis using assms by (auto simp: step_simps registerPlayHandler_def split: option.splits)
next
  case (RegisterPauseHandler h)
  then show ?thesis using assms by (auto simp: step_simps registerPauseHandler_def split: option.splits)
next
  case (RegisterStopHandler h)
  then show ?thesis using assms by (auto simp: step_simps registerStopHandler_def split: option.splits)
next
  case (SetNoTimeDisplay v)
  then show ?thesis using assms by (auto simp: step_simps setNoTimeDisplay_def split: option.splits)
next
  case EnableDisplayTimeZeroPad
  then show ?thesis using assms by (auto simp: step_simps enableDisplayTimeZeroPad_def split: option.splits)
qed (simp_all add: assms once_play once_stop once_pause once_seek once_prevTrack once_nextTrack
       once_playTrack once_tick once_play_catch)

lemma load_delivers:
  assumes "loadPlaylist up s = Done s0"
  shows "\<exists>d. track_changes_of (trace s0) = track_changes_of (trace s) @ d
          \<and> remembered s0 = last_of d
          \<and> d = (if udfTrackChangeHandler s then [0] else [])"
proof -
  from assms obtain pl where up: "up = Some pl" and ne: "pl \<noteq> []"
    and m: "missing_url_from 0 pl = None"
    by (auto simp: loadPlaylist_def split: option.splits if_splits)
  obtain t ts where pl: "pl = t # ts" using ne by (cases pl) auto
  show ?thesis
    using assms m unfolding up
    by (cases "playing s")
       (auto simp: loadPlaylist_def pl assign_current_src_eq pause_eq clear_deferred_def
          handleUdfTrackChange_eq play_eq Let_def track_changes_of_append
          track_changes_of_play_commands track_change_calls_def remembered_def last_of_def)
qed

lemma loadPlaylist_Threw:
  assumes "loadPlaylist up s = Threw e s'"
  shows "s' = s"
proof (cases up)
  case None
  then show ?thesis using assms by (simp add: loadPlaylist_def)
next
  case (Some pl)
  show ?thesis
  proof (cases "pl = [] \<or> missing_url_from 0 pl \<noteq> None")
    case True
    then show ?thesis using assms Some
      by (cases "pl = []"; cases "missing_url_from 0 pl") (simp_all add: loadPlaylist_def)
  next
    case False
    then obtain t ts where pl: "pl = t # ts" by (cases pl) auto
    have "is_done (loadPlaylist up s)"
      using False unfolding Some
      by (cases "playing s")
         (simp_all add: loadPlaylist_def pl assign_current_src_eq pause_eq clear_deferred_def
            Let_def)
    then show ?thesis using assms by simp
  qed
qed

lemma load_Done_settled:
  assumes "loadPlaylist up s = Done s0" and "udfTrackChangeHandler s"
  shows "settled s0 \<and> index_ok s0"
proof -
  from assms(1) obtain pl where up: "up = Some pl" and ne: "pl \<noteq> []"
    and m: "missing_url_from 0 pl = None"
    by (auto simp: loadPlaylist_def split: option.splits if_splits)
  obtain t ts where pl: "pl = t # ts" using ne by (cases pl) auto
  have "playlist s0 = Some pl \<and> playlistIndex s0 = 0 \<and> udfTrackChangeHandler s0
          \<and> udfPrevTrackChangeHandlerIndex s0 = Some 0"
    using assms m unfolding up
    by (cases "playing s")
       (auto simp: loadPlaylist_def pl assign_current_src_eq pause_eq clear_deferred_def
          handleUdfTrackChange_eq play_eq Let_def)
  then show ?thesis using pl by (simp add: settled_def index_ok_def)
qed

lemma load_settles:
  assumes "settled s" and "index_ok s"
  shows "settled (state_of (loadPlaylist up s)) \<and> index_ok (state_of (loadPlaylist up s))
     \<and> track_changes_of (trace (state_of (loadPlaylist up s)))
          = track_changes_of (trace s)
              @ (if is_done (loadPlaylist up s) \<or>
                    playlistIndex (state_of (loadPlaylist up s)) \<noteq> playlistIndex s
                 then [playlistIndex (state_of (loadPlaylist up s))] else [])"
proof (cases "loadPlaylist up s")
  case (Threw e s')
  then have "s' = s" by (rule loadPlaylist_Threw)
  then show ?thesis using Threw assms by simp
next
  case (Done s0)
  have h: "udfTrackChangeHandler s" using assms(1) by (simp add: settled_def)
  have "settled s0 \<and> index_ok s0" using Done h by (rule load_Done_settled)
  moreover have "track_changes_of (trace s0) = track_changes_of (trace s) @ [0]"
    using load_delivers [OF Done] h by simp
  moreover have "playlistIndex s0 = 0"
    using calculation(1) load_delivers [OF Done] h
    by (simp add: settled_def remembered_def last_of_def)
  ultimately show ?thesis using Done by simp
qed

lemma settles_run:
  assumes "RegisterTrackChangeHandler False \<notin> set ops"
  shows "settled s \<Longrightarrow> index_ok s \<Longrightarrow>
     track_changes_of (trace (run ops s)) = track_changes_of (trace s) @ settles ops s"
  using assms
proof (induction ops arbitrary: s)
  case Nil
  then show ?case by simp
next
  case (Cons c cs)
  let ?s' = "state_of (apply_op c s)"
  have step: "settled ?s' \<and> index_ok ?s'
     \<and> track_changes_of (trace ?s')
          = track_changes_of (trace s)
              @ (if (is_load c \<and> is_done (apply_op c s)) \<or> playlistIndex ?s' \<noteq> playlistIndex s
                 then [playlistIndex ?s'] else [])"
  proof (cases "is_load c")
    case True
    then obtain up where "c = LoadPlaylist up" by (cases c) auto
    then show ?thesis using load_settles [OF Cons.prems(1,2), of up] by simp
  next
    case False
    have "c \<noteq> RegisterTrackChangeHandler False" using Cons.prems(3) by auto
    then have "delivered_once s ?s'"
      using once_apply_op [OF Cons.prems(1,2) False] by simp
    then show ?thesis using False by (simp add: delivered_once_def)
  qed
  have "track_changes_of (trace (run cs ?s')) = track_changes_of (trace ?s') @ settles cs ?s'"
    using Cons.IH [of ?s'] step Cons.prems(3) by simp
  then show ?case using step by (simp add: Let_def)
qed

lemma demo_ops_run:
  "track_changes_of (trace (run demo_ops demo_loaded)) = [0, 1, 2, 0, 0]"
  by (simp add: demo_ops_def demo_loaded_eq demo_playlist_def nextTrack_def
        playStateIntervalHandler_def loadPlaylist_def has_url_def track_url_def
        assign_current_src_eq clear_deferred_def handleUdfTrackChange_eq play_eq pause_eq
        play_commands_def track_change_calls_def)

section \<open>The source the rejection handler reads\<close>

lemma holds_source_play: "holds_source u s \<Longrightarrow> holds_source u (play s)"
  by (auto simp: holds_source_def play_eq)

lemma holds_source_pause: "holds_source u s \<Longrightarrow> holds_source u (pause s)"
  by (simp add: holds_source_def pause_eq)

lemma holds_source_step:
  assumes "keeps_track c" and "holds_source u s"
  shows "holds_source u (state_of (apply_op c s))"
proof (cases c)
  case Play
  then show ?thesis using assms(2) by (simp add: holds_source_play)
next
  case Pause
  then show ?thesis using assms(2) by (simp add: holds_source_pause)
next
  case PlayPause
  then show ?thesis using assms(2)
    by (simp add: playPause_def holds_source_play holds_source_pause)
next
  case Stop
  then show ?thesis using assms(2) by (simp add: holds_source_def stop_eq)
next
  case (Seek x)
  then show ?thesis using assms(2) by (simp add: holds_source_def seek_def emit_def)
next
  case PlayRejected
  then show ?thesis using assms(2) by (simp add: holds_source_def play_catch_def pause_eq)
next
  case (Tick a)
  then have "\<not> audio_ended a" using assms(1) by simp
  then show ?thesis using Tick assms(2)
    by (simp add: playStateIntervalHandler_def holds_source_play holds_source_pause)
next
  case (RegisterPlayHandler h)
  then show ?thesis using assms(2) by (simp add: holds_source_def registerPlayHandler_def)
next
  case (RegisterPauseHandler h)
  then show ?thesis using assms(2) by (simp add: holds_source_def registerPauseHandler_def)
next
  case (RegisterStopHandler h)
  then show ?thesis using assms(2) by (simp add: holds_source_def registerStopHandler_def)
next
  case (RegisterTrackChangeHandler h)
  then show ?thesis using assms(2)
    by (simp add: holds_source_def registerTrackChangeHandler_def)
next
  case (SetNoTimeDisplay v)
  then show ?thesis using assms(2) by (simp add: holds_source_def setNoTimeDisplay_def)
next
  case EnableDisplayTimeZeroPad
  then show ?thesis using assms(2) by (simp add: holds_source_def enableDisplayTimeZeroPad_def)
qed (use assms(1) in simp_all)

lemma holds_source_run:
  "\<forall>c\<in>set ops. keeps_track c \<Longrightarrow> holds_source u s \<Longrightarrow> holds_source u (run ops s)"
proof (induction ops arbitrary: s)
  case Nil
  then show ?case by simp
next
  case (Cons c cs)
  then have "holds_source u (state_of (apply_op c s))" by (simp add: holds_source_step)
  then show ?case using Cons by simp
qed

lemma holds_source_after_play: "holds_source (audio_src (play s)) (play s)"
  by (simp add: holds_source_def play_eq)

section \<open>Navigation\<close>

text \<open>
  Claim C6. With a playlist of length \<open>L \<ge> 1\<close> loaded, \<^verbatim>\<open>nextTrack()\<close> on the last
  index \<open>L - 1\<close> returns normally with the current index 0, and \<^verbatim>\<open>prevTrack()\<close> on
  index 0 returns normally with the current index \<open>L - 1\<close>; for \<open>L = 1\<close> both leave
  the index at 0.
\<close>

theorem wraparound:
  assumes "playlist s = Some pl" and "1 \<le> length pl"
  shows "(playlistIndex s = int (length pl) - 1 \<longrightarrow>
            (\<exists>s'. nextTrack s = Done s' \<and> getCurrentPlaylistIndex s' = 0))
       \<and> (playlistIndex s = 0 \<longrightarrow>
            (\<exists>s'. prevTrack s = Done s' \<and> getCurrentPlaylistIndex s' = int (length pl) - 1))
       \<and> (length pl = 1 \<longrightarrow> playlistIndex s = 0 \<longrightarrow>
            (\<exists>s'. nextTrack s = Done s' \<and> getCurrentPlaylistIndex s' = 0)
          \<and> (\<exists>s'. prevTrack s = Done s' \<and> getCurrentPlaylistIndex s' = 0))"
proof -
  have n: "\<exists>s'. nextTrack s = Done s' \<and> getCurrentPlaylistIndex s' = 0"
    if "playlistIndex s = int (length pl) - 1"
    using that assms
    by (cases pl) (simp_all add: nextTrack_def assign_current_src_eq clear_deferred_def
          getCurrentPlaylistIndex_def play_eq handleUdfTrackChange_eq)
  have p: "\<exists>s'. prevTrack s = Done s' \<and> getCurrentPlaylistIndex s' = int (length pl) - 1"
    if "playlistIndex s = 0"
    using that assms
    by (cases pl) (simp_all add: prevTrack_def assign_current_src_eq clear_deferred_def
          getCurrentPlaylistIndex_def play_eq handleUdfTrackChange_eq)
  show ?thesis using n p by auto
qed

theorem wraparound_witness:
  "(\<exists>s'. nextTrack demo_last = Done s' \<and> getCurrentPlaylistIndex s' = 0)
   \<and> (\<exists>s'. prevTrack demo_loaded = Done s' \<and> getCurrentPlaylistIndex s' = 2)
   \<and> (\<exists>s'. nextTrack (demo_loaded\<lparr>playlist := Some [[(''url'', ''/mp3/only.mp3'')]]\<rparr>) = Done s'
          \<and> getCurrentPlaylistIndex s' = 0)
   \<and> (\<exists>s'. prevTrack (demo_loaded\<lparr>playlist := Some [[(''url'', ''/mp3/only.mp3'')]]\<rparr>) = Done s'
          \<and> getCurrentPlaylistIndex s' = 0)"
proof -
  have "playlist demo_last = Some demo_playlist" and "playlistIndex demo_last = 2"
    and "playlist demo_loaded = Some demo_playlist" and "playlistIndex demo_loaded = 0"
    and "length demo_playlist = 3"
    by (simp_all add: demo_last_eq demo_loaded_eq demo_playlist_def)
  then show ?thesis
    using wraparound [of demo_last demo_playlist] wraparound [of demo_loaded demo_playlist]
      wraparound [of "demo_loaded\<lparr>playlist := Some [[(''url'', ''/mp3/only.mp3'')]]\<rparr>"
                     "[[(''url'', ''/mp3/only.mp3'')]]"]
    by simp
qed

text \<open>
  Claim C7. With a playlist of length \<open>L\<close> loaded and an integer \<open>i\<close> outside
  \<open>[0, L)\<close>, \<^verbatim>\<open>playTrack(i)\<close> returns normally and the state after it is the state
  before it: index, intent, deferred source, deferred seek and every other variable are
  unchanged, and nothing is sent to the audio element or to a handler.
\<close>

theorem playTrack_out_of_range:
  assumes "playlist s = Some pl" and "i < 0 \<or> int (length pl) \<le> i"
  shows "playTrack i s = Done s"
  using assms by (auto simp: playTrack_def)

theorem playTrack_out_of_range_witness:
  "playTrack 3 demo_last = Done demo_last \<and> playTrack (- 1) demo_last = Done demo_last"
proof -
  have p: "playlist demo_last = Some demo_playlist" by (simp add: demo_last_eq)
  have l: "length demo_playlist = 3" by (simp add: demo_playlist_def)
  show ?thesis
    using playTrack_out_of_range [OF p, of 3] playTrack_out_of_range [OF p, of "- 1"] l by simp
qed

section \<open>Deferred operations\<close>

text \<open>
  Claim C4. When the intent is not-playing, \<^verbatim>\<open>seek(x)\<close> changes nothing but the
  deferred seek, which becomes \<open>x\<close>: no position is assigned to the audio element. The
  following \<^verbatim>\<open>play()\<close> assigns \<open>x\<close> to \<^verbatim>\<open>audio.currentTime\<close> once and clears the
  deferred seek, so that a second \<^verbatim>\<open>play()\<close> assigns nothing more. The same holds for
  \<^verbatim>\<open>play()\<close> in any state whose deferred seek is \<open>x\<close>, whatever ran in between.
\<close>

theorem deferred_seek:
  "(\<not> playing s \<longrightarrow>
      seek x s = s\<lparr>deferredInitialSeekTime := Some x\<rparr>
    \<and> trace (seek x s) = trace s
    \<and> seeks_of (trace (play (seek x s))) = seeks_of (trace s) @ [x]
    \<and> deferredInitialSeekTime (play (seek x s)) = None
    \<and> seeks_of (trace (play (play (seek x s)))) = seeks_of (trace s) @ [x])
   \<and> (deferredInitialSeekTime s = Some x \<longrightarrow>
      seeks_of (trace (play s)) = seeks_of (trace s) @ [x]
    \<and> deferredInitialSeekTime (play s) = None)"
  by (simp add: seek_def play_eq play_commands_def seeks_of_append seeks_of_track_change_calls
        split: option.splits)

theorem deferred_seek_witness:
  "\<not> playing demo_loaded
   \<and> trace (seek 30 demo_loaded) = trace demo_loaded
   \<and> seeks_of (trace (play (seek 30 demo_loaded))) = [30]
   \<and> deferredInitialSeekTime (play (seek 30 demo_loaded)) = None
   \<and> seeks_of (trace (play (play (seek 30 demo_loaded)))) = [30]"
proof -
  have f: "\<not> playing demo_loaded" and g: "seeks_of (trace demo_loaded) = []"
    by (simp_all add: demo_loaded_eq)
  from deferred_seek [of demo_loaded 30] f
  have "trace (seek 30 demo_loaded) = trace demo_loaded
    \<and> seeks_of (trace (play (seek 30 demo_loaded))) = seeks_of (trace demo_loaded) @ [30]
    \<and> deferredInitialSeekTime (play (seek 30 demo_loaded)) = None
    \<and> seeks_of (trace (play (play (seek 30 demo_loaded)))) = seeks_of (trace demo_loaded) @ [30]"
    by blast
  then show ?thesis using f by (simp add: g)
qed

text \<open>
  Claim C2, as the specification states it, fails: the rejection handler reads
  \<^verbatim>\<open>audio.src\<close> when it runs, not when \<^verbatim>\<open>play()\<close> ran. Let \<^verbatim>\<open>play()\<close> start the first
  track, and let \<^verbatim>\<open>pause()\<close> and the load of another playlist follow before the promise
  is rejected. One play command has been sent, for \<^verbatim>\<open>/mp3/01.mp3\<close>, and the handler
  records \<^verbatim>\<open>/mp3/04.mp3\<close>. The same happens when \<^verbatim>\<open>nextTrack()\<close> comes between
  \<^verbatim>\<open>play()\<close> and the rejection of its promise.
\<close>

theorem play_failure_recovered_counterexample:
  "audio_src (play demo_loaded) = ''/mp3/01.mp3''
   \<and> count_list (trace (run demo_rejected_late demo_loaded)) AudioPlay = 1
   \<and> deferredAudioSrc (run demo_rejected_late demo_loaded) = Some ''/mp3/04.mp3''
   \<and> deferredAudioSrc (run [Play, NextTrack, PlayRejected] demo_loaded) = Some ''/mp3/02.mp3''"
  by (simp add: demo_rejected_late_def demo_loaded_eq demo_playlist_def play_eq pause_eq
        play_catch_def loadPlaylist_def nextTrack_def has_url_def track_url_def
        assign_current_src_eq clear_deferred_def handleUdfTrackChange_eq play_commands_def
        track_change_calls_def)

text \<open>
  Claim C2, amended. Whenever the rejection of a play promise is delivered, the handler
  stores the source the audio element holds at that moment as the deferred source and
  goes through \<^verbatim>\<open>pause()\<close>: the intent is not-playing, the audio element is paused and
  the pause handler, if registered, is called. A later \<^verbatim>\<open>play()\<close> assigns that source
  again before the play command. Neither \<^verbatim>\<open>play()\<close> nor the handler throws. The stored
  source is the one \<^verbatim>\<open>play()\<close> was playing (the former deferred source if there was one,
  the current source otherwise) whenever the operations between \<^verbatim>\<open>play()\<close> and the
  rejection keep the track: any sequence of play, pause, play/pause, stop, seek, handler
  registrations, display settings, further rejections, and runs of the interval handler
  that do not see the track ended.
\<close>

theorem play_failure_recovered:
  "deferredAudioSrc (play_catch s') = Some (audio_src s')
   \<and> \<not> isPlaying (play_catch s')
   \<and> trace (play_catch s')
        = trace s' @ AudioPause # (if udfPauseHandler s' then [UdfPause] else [])
   \<and> (\<exists>rest. trace (play (play_catch s'))
               = trace (play_catch s') @ AudioSetSrc (audio_src s') # rest
             \<and> AudioPlay \<in> set rest)
   \<and> is_done (apply_op Play s) \<and> is_done (apply_op PlayRejected s')
   \<and> audio_src (play s) = (case deferredAudioSrc s of Some u \<Rightarrow> u | None \<Rightarrow> audio_src s)
   \<and> ((\<forall>c\<in>set ops. keeps_track c) \<longrightarrow>
         audio_src (run ops (play s)) = audio_src (play s)
         \<and> deferredAudioSrc (play_catch (run ops (play s))) = Some (audio_src (play s)))"
proof -
  have a: "deferredAudioSrc (play_catch s') = Some (audio_src s')
     \<and> \<not> isPlaying (play_catch s')
     \<and> trace (play_catch s')
          = trace s' @ AudioPause # (if udfPauseHandler s' then [UdfPause] else [])
     \<and> (\<exists>rest. trace (play (play_catch s'))
               = trace (play_catch s') @ AudioSetSrc (audio_src s') # rest
             \<and> AudioPlay \<in> set rest)" for s'
    by (cases "deferredInitialSeekTime s'")
       (simp_all add: play_catch_def pause_eq play_eq play_commands_def isPlaying_def)
  have b: "audio_src (play s) = (case deferredAudioSrc s of Some u \<Rightarrow> u | None \<Rightarrow> audio_src s)"
    by (simp add: play_eq)
  have c: "audio_src (run ops (play s)) = audio_src (play s)
         \<and> deferredAudioSrc (play_catch (run ops (play s))) = Some (audio_src (play s))"
    if "\<forall>c\<in>set ops. keeps_track c"
  proof -
    have "holds_source (audio_src (play s)) (run ops (play s))"
      using that holds_source_after_play by (rule holds_source_run)
    then have "audio_src (run ops (play s)) = audio_src (play s)"
      by (simp add: holds_source_def)
    then show ?thesis using a [of "run ops (play s)"] by simp
  qed
  have d: "is_done (apply_op Play s) \<and> is_done (apply_op PlayRejected s')" by simp
  show ?thesis using a [of s'] b c d by blast
qed

theorem play_failure_recovered_witness:
  "list_all keeps_track
     [Pause, Seek 30, Tick \<lparr>audio_ended = False, audio_paused = True\<rparr>, Stop, PlayPause]
   \<and> deferredAudioSrc
        (play_catch
           (run [Pause, Seek 30, Tick \<lparr>audio_ended = False, audio_paused = True\<rparr>, Stop,
                 PlayPause]
              (play demo_loaded)))
        = Some ''/mp3/01.mp3''
   \<and> deferredAudioSrc (play_catch (play demo_loaded)) = Some ''/mp3/01.mp3''
   \<and> \<not> isPlaying (play_catch (play demo_loaded))
   \<and> trace (play_catch (play demo_loaded)) = trace (play demo_loaded) @ [AudioPause, UdfPause]"
proof -
  let ?ops = "[Pause, Seek 30, Tick \<lparr>audio_ended = False, audio_paused = True\<rparr>, Stop, PlayPause]"
  have k: "\<forall>c\<in>set ?ops. keeps_track c" and k': "list_all keeps_track ?ops" by simp_all
  have f: "audio_src (play demo_loaded) = ''/mp3/01.mp3''" "udfPauseHandler (play demo_loaded)"
    by (simp_all add: demo_loaded_eq play_eq)
  note t = play_failure_recovered [of "play demo_loaded" demo_loaded ?ops]
  from t k
  have "deferredAudioSrc (play_catch (run ?ops (play demo_loaded)))
          = Some (audio_src (play demo_loaded))"
    by blast
  then have a: "deferredAudioSrc (play_catch (run ?ops (play demo_loaded))) = Some ''/mp3/01.mp3''"
    unfolding f(1) .
  from t
  have "deferredAudioSrc (play_catch (play demo_loaded)) = Some (audio_src (play demo_loaded))
    \<and> \<not> isPlaying (play_catch (play demo_loaded))
    \<and> trace (play_catch (play demo_loaded))
         = trace (play demo_loaded)
             @ AudioPause # (if udfPauseHandler (play demo_loaded) then [UdfPause] else [])"
    by blast
  then have b: "deferredAudioSrc (play_catch (play demo_loaded)) = Some ''/mp3/01.mp3''
    \<and> \<not> isPlaying (play_catch (play demo_loaded))
    \<and> trace (play_catch (play demo_loaded)) = trace (play demo_loaded) @ [AudioPause, UdfPause]"
    by (simp add: f)
  show ?thesis using k' a b by blast
qed

text \<open>
  Claim C10. \<^verbatim>\<open>stop()\<close> leaves the deferred source as it is and clears the deferred
  seek; beyond that it only sets the intent to not-playing, pauses and rewinds the audio
  element and calls the stop handler. So a source recorded by a rejected \<^verbatim>\<open>play()\<close>
  survives \<^verbatim>\<open>stop()\<close>, and the next \<^verbatim>\<open>play()\<close> assigns it again before playing.
\<close>

theorem stop_keeps_deferred_source:
  "deferredAudioSrc (stop s) = deferredAudioSrc s
   \<and> deferredInitialSeekTime (stop s) = None
   \<and> stop s = s\<lparr>playing := False, deferredInitialSeekTime := None,
                 trace := trace s @ [AudioPause, AudioSetCurrentTime 0]
                            @ (if udfStopHandler s then [UdfStop] else [])\<rparr>
   \<and> deferredAudioSrc (stop (play_catch (play s))) = Some (audio_src (play s))
   \<and> (\<exists>rest. trace (play (stop (play_catch (play s))))
               = trace (stop (play_catch (play s)))
                   @ AudioSetSrc (audio_src (play s)) # AudioPlay # rest)"
  by (simp add: stop_eq play_catch_def pause_eq play_eq play_commands_def)

theorem stop_keeps_deferred_source_witness:
  "deferredAudioSrc (stop (play_catch (play demo_loaded))) = Some ''/mp3/01.mp3''
   \<and> deferredInitialSeekTime (stop (seek 30 demo_loaded)) = None"
proof -
  have f: "audio_src (play demo_loaded) = ''/mp3/01.mp3''"
    by (simp add: demo_loaded_eq play_eq)
  from stop_keeps_deferred_source [of demo_loaded]
    stop_keeps_deferred_source [of "seek 30 demo_loaded"]
  have "deferredAudioSrc (stop (play_catch (play demo_loaded)))
          = Some (audio_src (play demo_loaded))
    \<and> deferredInitialSeekTime (stop (seek 30 demo_loaded)) = None"
    by blast
  then show ?thesis by (simp add: f)
qed

section \<open>The end of the playlist\<close>

text \<open>
  Claim C1. Let the intent be playing, the audio element report \<^verbatim>\<open>ended\<close>, and the
  current index be the last index of the (non-empty) playlist. Then one run of the
  interval handler returns normally in a state where the intent is not-playing, the index
  is 0, the source of the first track has been assigned, and both deferred operations are
  cleared. What it sends out is exactly: the pause command, the pause handler's call (if
  registered), the source assignment, and the track-change dispatch for index 0 (a call
  of the handler unless it is missing or was last called with 0). No play command is sent.
\<close>

theorem last_track_ended:
  assumes "playing s" and "audio_ended a" and "playlist s = Some pl" and "pl \<noteq> []"
    and "playlistIndex s = int (length pl) - 1"
  shows "\<exists>s'. playStateIntervalHandler a s = Done s'
     \<and> \<not> playing s' \<and> playlistIndex s' = 0 \<and> audio_src s' = track_url (hd pl)
     \<and> deferredAudioSrc s' = None \<and> deferredInitialSeekTime s' = None
     \<and> trace s' = trace s @ AudioPause # (if udfPauseHandler s then [UdfPause] else [])
                     @ AudioSetSrc (track_url (hd pl)) # track_change_calls 0 s
     \<and> AudioPlay \<notin> set (drop (length (trace s)) (trace s'))
     \<and> udfPrevTrackChangeHandlerIndex s'
          = (if udfTrackChangeHandler s then Some 0 else udfPrevTrackChangeHandlerIndex s)"
  using assms
  by (cases pl)
     (simp_all add: playStateIntervalHandler_def assign_current_src_eq pause_eq clear_deferred_def
        handleUdfTrackChange_eq track_change_calls_def)

theorem last_track_ended_witness:
  "\<exists>s'. playStateIntervalHandler \<lparr>audio_ended = True, audio_paused = False\<rparr> demo_last = Done s'
     \<and> \<not> playing s' \<and> playlistIndex s' = 0 \<and> audio_src s' = ''/mp3/01.mp3''
     \<and> deferredAudioSrc s' = None \<and> deferredInitialSeekTime s' = None
     \<and> trace s' = trace demo_last
                     @ [AudioPause, UdfPause, AudioSetSrc ''/mp3/01.mp3'', UdfTrackChange 0]"
proof -
  have "playing demo_last" and "playlist demo_last = Some demo_playlist"
    and "playlistIndex demo_last = int (length demo_playlist) - 1"
    and "udfPauseHandler demo_last" and "track_change_calls 0 demo_last = [UdfTrackChange 0]"
    and "demo_playlist \<noteq> []" and "track_url (hd demo_playlist) = ''/mp3/01.mp3''"
    by (simp_all add: demo_last_eq demo_playlist_def track_url_def track_change_calls_def)
  then show ?thesis
    using last_track_ended [of demo_last "\<lparr>audio_ended = True, audio_paused = False\<rparr>"
                               demo_playlist]
    by auto
qed

section \<open>Loading\<close>

text \<open>
  Claim C5. \<^verbatim>\<open>loadPlaylist\<close> throws exactly when the playlist is absent, is empty, or
  has an entry without \<^verbatim>\<open>url\<close>, and then it has changed nothing. When it returns
  normally, the argument is the playlist, the current index is 0, both deferred
  operations are cleared, and the source of the first track has been assigned to the
  audio element during the call.
\<close>

theorem loadPlaylist_errors:
  "((\<exists>e s'. loadPlaylist up s = Threw e s')
      \<longleftrightarrow> (up = None \<or> up = Some [] \<or> (\<exists>pl. up = Some pl \<and> (\<exists>t\<in>set pl. \<not> has_url t))))
   \<and> (\<forall>e s'. loadPlaylist up s = Threw e s' \<longrightarrow> s' = s)
   \<and> (\<forall>s'. loadPlaylist up s = Done s' \<longrightarrow>
         (\<exists>pl. up = Some pl \<and> playlist s' = Some pl \<and> getCurrentPlaylistIndex s' = 0
            \<and> deferredAudioSrc s' = None \<and> deferredInitialSeekTime s' = None
            \<and> audio_src s' = track_url (hd pl)
            \<and> AudioSetSrc (track_url (hd pl)) \<in> set (drop (length (trace s)) (trace s'))))"
proof (cases up)
  case None
  then show ?thesis by (simp add: loadPlaylist_def)
next
  case (Some pl)
  show ?thesis
  proof (cases "pl = [] \<or> (\<exists>t\<in>set pl. \<not> has_url t)")
    case True
    then have "\<exists>e. loadPlaylist up s = Threw e s"
      using Some missing_url_from_None [of 0 pl]
      by (auto simp: loadPlaylist_def split: option.splits)
    then show ?thesis using Some True by auto
  next
    case False
    then have m: "missing_url_from 0 pl = None" and ne: "pl \<noteq> []"
      using missing_url_from_None [of 0 pl] by auto
    obtain t ts where pl: "pl = t # ts" using ne by (cases pl) auto
    have "\<exists>s'. loadPlaylist up s = Done s' \<and> playlist s' = Some pl \<and> playlistIndex s' = 0
            \<and> deferredAudioSrc s' = None \<and> deferredInitialSeekTime s' = None
            \<and> audio_src s' = track_url (hd pl)
            \<and> AudioSetSrc (track_url (hd pl)) \<in> set (drop (length (trace s)) (trace s'))"
      using Some m
      by (cases "playing s")
         (simp_all add: loadPlaylist_def pl assign_current_src_eq pause_eq clear_deferred_def
            handleUdfTrackChange_eq play_eq Let_def)
    then show ?thesis using Some False by (auto simp: getCurrentPlaylistIndex_def)
  qed
qed

theorem loadPlaylist_errors_witness:
  "(\<exists>e s'. loadPlaylist None demo_last = Threw e s')
   \<and> (\<exists>e s'. loadPlaylist (Some []) demo_last = Threw e s')
   \<and> (\<exists>e s'. loadPlaylist (Some [[(''url'', ''/a.mp3'')], [(''title'', ''b'')]]) demo_last
                = Threw e s')
   \<and> (\<exists>s'. loadPlaylist (Some demo_playlist) demo_last = Done s'
          \<and> getCurrentPlaylistIndex s' = 0 \<and> deferredAudioSrc s' = None
          \<and> deferredInitialSeekTime s' = None \<and> audio_src s' = ''/mp3/01.mp3'')"
proof -
  have a: "\<exists>e s'. loadPlaylist None demo_last = Threw e s'"
    using loadPlaylist_errors [of None demo_last] by blast
  have b: "\<exists>e s'. loadPlaylist (Some []) demo_last = Threw e s'"
    using loadPlaylist_errors [of "Some []" demo_last] by blast
  have "\<exists>t\<in>set [[(''url'', ''/a.mp3'')], [(''title'', ''b'')]]. \<not> has_url t"
    by (simp add: has_url_def)
  then have c: "\<exists>e s'. loadPlaylist (Some [[(''url'', ''/a.mp3'')], [(''title'', ''b'')]])
                         demo_last = Threw e s'"
    using loadPlaylist_errors [of "Some [[(''url'', ''/a.mp3'')], [(''title'', ''b'')]]" demo_last]
    by blast
  have "\<forall>t\<in>set demo_playlist. has_url t"
    by (simp add: demo_playlist_def has_url_def)
  then have "\<not> (\<exists>e s'. loadPlaylist (Some demo_playlist) demo_last = Threw e s')"
    using loadPlaylist_errors [of "Some demo_playlist" demo_last]
    by (simp add: demo_playlist_def)
  then obtain s' where s': "loadPlaylist (Some demo_playlist) demo_last = Done s'"
    by (cases "loadPlaylist (Some demo_playlist) demo_last") auto
  have u: "track_url (hd demo_playlist) = ''/mp3/01.mp3''"
    by (simp add: demo_playlist_def track_url_def)
  from loadPlaylist_errors [of "Some demo_playlist" demo_last] s'
  have "getCurrentPlaylistIndex s' = 0 \<and> deferredAudioSrc s' = None
          \<and> deferredInitialSeekTime s' = None \<and> audio_src s' = track_url (hd demo_playlist)"
    by blast
  then have d: "\<exists>s'. loadPlaylist (Some demo_playlist) demo_last = Done s'
          \<and> getCurrentPlaylistIndex s' = 0 \<and> deferredAudioSrc s' = None
          \<and> deferredInitialSeekTime s' = None \<and> audio_src s' = ''/mp3/01.mp3''"
    using s' u by simp
  show ?thesis using a b c d by blast
qed

section \<open>Track-change notifications\<close>

text \<open>
  Claim C3. The track-change handler is never called twice in a row with the same
  index: in any sequence of operations without \<^verbatim>\<open>loadPlaylist\<close>, started where no
  index is remembered (as when the script has just been loaded) or started by a
  \<^verbatim>\<open>loadPlaylist\<close> that returned normally, the indices delivered from then on never
  repeat an index consecutively. \<^verbatim>\<open>loadPlaylist\<close> forgets the remembered index: a load
  that returns normally calls a registered handler with index 0 exactly once, whatever
  index was delivered last (0 included), and leaves nothing remembered when no handler is
  registered. And every settled index is delivered exactly once: from a settled state,
  or from a load that returned normally with a handler registered, along any sequence of
  operations that does not unregister the handler, the handler is called precisely with
  the index after each operation that changed the index and with 0 after each successful
  load, in that order.
\<close>

theorem track_change_once:
  "((\<forall>c\<in>set ops. \<not> is_load c) \<and> udfPrevTrackChangeHandlerIndex s = None \<longrightarrow>
      (\<exists>d. track_changes_of (trace (run ops s)) = track_changes_of (trace s) @ d
           \<and> distinct_adj d))
   \<and> ((\<forall>c\<in>set ops. \<not> is_load c) \<and> loadPlaylist up s = Done s0 \<longrightarrow>
      (\<exists>d. track_changes_of (trace (run ops s0)) = track_changes_of (trace s) @ d
           \<and> distinct_adj d))
   \<and> (loadPlaylist up s = Done s0 \<longrightarrow>
        track_changes_of (trace s0)
          = track_changes_of (trace s) @ (if udfTrackChangeHandler s then [0] else [])
        \<and> udfPrevTrackChangeHandlerIndex s0 = (if udfTrackChangeHandler s then Some 0 else None))
   \<and> (settled s \<and> index_ok s \<and> RegisterTrackChangeHandler False \<notin> set ops \<longrightarrow>
        track_changes_of (trace (run ops s)) = track_changes_of (trace s) @ settles ops s)
   \<and> (udfTrackChangeHandler s \<and> loadPlaylist up s = Done s0
        \<and> RegisterTrackChangeHandler False \<notin> set ops \<longrightarrow>
        track_changes_of (trace (run ops s0))
          = track_changes_of (trace s) @ 0 # settles ops s0)"
proof -
  have a: "\<exists>d. track_changes_of (trace (run ops s)) = track_changes_of (trace s) @ d
             \<and> distinct_adj d"
    if "\<forall>c\<in>set ops. \<not> is_load c" and "udfPrevTrackChangeHandlerIndex s = None"
  proof -
    have "follows s (run ops s)" using that(1) by (rule follows_run)
    then show ?thesis using that(2) by (auto simp: follows_def remembered_def)
  qed
  have b: "\<exists>d. track_changes_of (trace (run ops s0)) = track_changes_of (trace s) @ d
             \<and> distinct_adj d"
    if "\<forall>c\<in>set ops. \<not> is_load c" and "loadPlaylist up s = Done s0"
  proof -
    from load_delivers [OF that(2)] obtain d0
      where d0: "track_changes_of (trace s0) = track_changes_of (trace s) @ d0"
        "remembered s0 = last_of d0" "d0 = (if udfTrackChangeHandler s then [0] else [])"
      by blast
    have "follows s0 (run ops s0)" using that(1) by (rule follows_run)
    then obtain d1
      where d1: "track_changes_of (trace (run ops s0)) = track_changes_of (trace s0) @ d1"
        "distinct_adj (remembered s0 @ d1)"
      unfolding follows_def by blast
    have "distinct_adj d0" using d0(3) by simp
    then have "distinct_adj (d0 @ d1)" using d1(2) unfolding d0(2) by (rule distinct_adj_glue)
    then show ?thesis using d0(1) d1(1) by (intro exI [of _ "d0 @ d1"]) simp
  qed
  have c: "track_changes_of (trace s0)
          = track_changes_of (trace s) @ (if udfTrackChangeHandler s then [0] else [])
        \<and> udfPrevTrackChangeHandlerIndex s0 = (if udfTrackChangeHandler s then Some 0 else None)"
    if "loadPlaylist up s = Done s0"
    using load_delivers [OF that]
    by (auto simp: remembered_def last_of_def split: option.splits if_splits)
  have d: "track_changes_of (trace (run ops s0))
             = track_changes_of (trace s) @ 0 # settles ops s0"
    if "udfTrackChangeHandler s" and "loadPlaylist up s = Done s0"
      and "RegisterTrackChangeHandler False \<notin> set ops"
  proof -
    have "settled s0 \<and> index_ok s0" using that(2,1) by (rule load_Done_settled)
    then have "track_changes_of (trace (run ops s0))
                 = track_changes_of (trace s0) @ settles ops s0"
      using settles_run [OF that(3), of s0] by simp
    then show ?thesis using c [OF that(2)] that(1) by simp
  qed
  show ?thesis using a b c d settles_run [of ops s] by blast
qed

theorem track_change_once_witness:
  "distinct_adj
     (track_changes_of
        (trace (run [RegisterTrackChangeHandler True, Play, Play, Pause] init_state)))
   \<and> track_changes_of (trace (run [RegisterTrackChangeHandler True, Play, Play, Pause] init_state))
        = [0]
   \<and> (\<exists>s0. loadPlaylist (Some demo_playlist) demo_loaded = Done s0
          \<and> udfPrevTrackChangeHandlerIndex demo_loaded = Some 0
          \<and> track_changes_of (trace demo_loaded) = [0]
          \<and> track_changes_of (trace s0) = [0, 0]
          \<and> (\<exists>d. track_changes_of (trace (run [NextTrack, Pause] s0)) = [0] @ d
                 \<and> distinct_adj d)
          \<and> track_changes_of (trace (run [NextTrack, Pause] s0))
               = [0, 0] @ settles [NextTrack, Pause] s0)
   \<and> settles demo_ops demo_loaded = [1, 2, 0, 0]"
proof -
  let ?ops = "[RegisterTrackChangeHandler True, Play, Play, Pause]"
  have r: "track_changes_of (trace (run ?ops init_state)) = [0]"
    by (simp add: init_state_def registerTrackChangeHandler_def play_eq pause_eq
          play_commands_def track_change_calls_def)
  have i: "\<forall>c\<in>set ?ops. \<not> is_load c" "udfPrevTrackChangeHandlerIndex init_state = None"
    "track_changes_of (trace init_state) = []"
    by (simp_all add: init_state_def)
  from track_change_once [of ?ops init_state] i(1,2)
  have "\<exists>d. track_changes_of (trace (run ?ops init_state))
               = track_changes_of (trace init_state) @ d \<and> distinct_adj d"
    by blast
  then have a: "distinct_adj (track_changes_of (trace (run ?ops init_state)))"
    unfolding i(3) by auto
  have l: "\<exists>s0. loadPlaylist (Some demo_playlist) demo_loaded = Done s0"
    by (simp add: loadPlaylist_def demo_playlist_def has_url_def demo_loaded_eq
          assign_current_src_eq clear_deferred_def)
  then obtain s0 where s0: "loadPlaylist (Some demo_playlist) demo_loaded = Done s0" by blast
  have f: "udfTrackChangeHandler demo_loaded" "udfPrevTrackChangeHandlerIndex demo_loaded = Some 0"
    "track_changes_of (trace demo_loaded) = [0]"
    by (simp_all add: demo_loaded_eq)
  have q: "\<forall>c\<in>set [NextTrack, Pause]. \<not> is_load c"
    "RegisterTrackChangeHandler False \<notin> set [NextTrack, Pause]"
    by simp_all
  note t = track_change_once [of "[NextTrack, Pause]" demo_loaded "Some demo_playlist" s0]
  from t s0
  have "track_changes_of (trace s0)
          = track_changes_of (trace demo_loaded)
              @ (if udfTrackChangeHandler demo_loaded then [0] else [])"
    by blast
  then have y1: "track_changes_of (trace s0) = [0, 0]" using f(1,3) by simp
  from t s0 q(1)
  have "\<exists>d. track_changes_of (trace (run [NextTrack, Pause] s0))
               = track_changes_of (trace demo_loaded) @ d \<and> distinct_adj d"
    by blast
  then have y2: "\<exists>d. track_changes_of (trace (run [NextTrack, Pause] s0)) = [0] @ d
                 \<and> distinct_adj d"
    unfolding f(3) .
  from t s0 f(1) q(2)
  have "track_changes_of (trace (run [NextTrack, Pause] s0))
          = track_changes_of (trace demo_loaded) @ 0 # settles [NextTrack, Pause] s0"
    by blast
  then have y3: "track_changes_of (trace (run [NextTrack, Pause] s0))
                   = [0, 0] @ settles [NextTrack, Pause] s0"
    unfolding f(3) by (simp only: append_Cons append_Nil)
  have b: "\<exists>s0. loadPlaylist (Some demo_playlist) demo_loaded = Done s0
          \<and> udfPrevTrackChangeHandlerIndex demo_loaded = Some 0
          \<and> track_changes_of (trace demo_loaded) = [0]
          \<and> track_changes_of (trace s0) = [0, 0]
          \<and> (\<exists>d. track_changes_of (trace (run [NextTrack, Pause] s0)) = [0] @ d
                 \<and> distinct_adj d)
          \<and> track_changes_of (trace (run [NextTrack, Pause] s0))
               = [0, 0] @ settles [NextTrack, Pause] s0"
    using s0 f(2,3) y1 y2 y3 by blast
  have g: "settled demo_loaded" "index_ok demo_loaded"
    "RegisterTrackChangeHandler False \<notin> set demo_ops"
    by (simp_all add: settled_def index_ok_def demo_loaded_eq demo_playlist_def demo_ops_def)
  from track_change_once [of demo_ops demo_loaded None demo_loaded] g
  have "track_changes_of (trace (run demo_ops demo_loaded))
          = track_changes_of (trace demo_loaded) @ settles demo_ops demo_loaded"
    by blast
  then have d: "settles demo_ops demo_loaded = [1, 2, 0, 0]"
    unfolding demo_ops_run f(3) by simp
  show ?thesis using a r b d by blast
qed

section \<open>Display times\<close>

text \<open>
  Claim C8, as the specification states it, fails on large inputs, where the division of
  doubles is no longer exact. The double 70438513471906136 is a whole number of seconds
  with 8 minutes past the hour; its quotient by 60 rounds up to the next integer, and the
  formatter prints 9 minutes.
\<close>

theorem display_time_refines_counterexample:
  "secondsToDisplayTime demo_engine_str init_state (Fin 70438513471906136)
     = ''19566253742196:09:56''
   \<and> display_time_ref (noTime init_state) (displayTimeZeroPad init_state)
        (Some 70438513471906136)
     = ''19566253742196:08:56''"
proof -
  have t: "js_round (js_abs (Fin 70438513471906136)) = Fin 70438513471906136"
    by simp
  have h: "js_floor (js_div (Fin 70438513471906136) 3600) = Fin 19566253742196"
    using big_hours by simp
  have m: "js_floor (js_div (Fin 70438513471906136) 60) = Fin 1173975224531769"
    using big_minutes by simp
  have a: "secondsToDisplayTime demo_engine_str init_state (Fin 70438513471906136)
             = ''19566253742196:09:56''"
    unfolding secondsToDisplayTime_def Let_def t h m
    by (simp add: nat_str.simps digit_char_def)
  have "nat (round \<bar>70438513471906136 :: real\<bar>) = 70438513471906136"
    by (simp add: round_def)
  then have b: "display_time_ref (noTime init_state) (displayTimeZeroPad init_state)
                  (Some 70438513471906136)
                = ''19566253742196:08:56''"
    by (simp add: display_time_ref_def init_state_def two_digits_def nat_str.simps
          digit_char_def)
  show ?thesis using a b by blast
qed

text \<open>
  Claim C8, amended. On every finite number of seconds whose rounded absolute value is
  below \<open>2^53\<close>, and on \<^verbatim>\<open>NaN\<close>, the formatter returns what the reference definition
  returns: for \<^verbatim>\<open>NaN\<close> the no-time string, which is \<^verbatim>\<open>--:--\<close> until
  \<^verbatim>\<open>setNoTimeDisplay\<close> replaces it. With the initial settings 0, 65, -65 and 3661 seconds
  are formatted as \<^verbatim>\<open>0:00\<close>, \<^verbatim>\<open>1:05\<close>, \<^verbatim>\<open>-1:05\<close> and \<^verbatim>\<open>1:01:01\<close>. This holds
  whatever the engine prints for the numbers \<open>js_str\<close> leaves to it. (The reference says
  nothing about the infinities; the source ends at the no-time string for them, through
  the check of \<^verbatim>\<open>intSeconds\<close>.)
\<close>

theorem display_time_refines:
  "(\<forall>v. nat (round \<bar>v\<bar>) < 2 ^ 53 \<longrightarrow>
        secondsToDisplayTime engine_str s (Fin v)
          = display_time_ref (noTime s) (displayTimeZeroPad s) (Some v))
   \<and> secondsToDisplayTime engine_str s NaN
        = display_time_ref (noTime s) (displayTimeZeroPad s) None
   \<and> secondsToDisplayTime engine_str s NaN = noTime s
   \<and> secondsToDisplayTime engine_str (setNoTimeDisplay w s) NaN = w
   \<and> secondsToDisplayTime engine_str init_state (Fin 0) = ''0:00''
   \<and> secondsToDisplayTime engine_str init_state (Fin 65) = ''1:05''
   \<and> secondsToDisplayTime engine_str init_state (Fin (- 65)) = ''-1:05''
   \<and> secondsToDisplayTime engine_str init_state (Fin 3661) = ''1:01:01''
   \<and> secondsToDisplayTime engine_str init_state NaN = ''--:--''"
proof -
  have a: "secondsToDisplayTime engine_str s NaN = noTime s" for s
    by (simp add: secondsToDisplayTime_def)
  show ?thesis
    using secondsToDisplayTime_Fin [of _ engine_str s] display_examples(1-4) [of engine_str]
    by (simp add: a display_time_ref_def setNoTimeDisplay_def init_state_def)
qed

theorem display_time_refines_witness:
  "nat (round \<bar>119 / 2 :: real\<bar>) < 2 ^ 53
   \<and> secondsToDisplayTime demo_engine_str (setNoTimeDisplay ''n/a'' init_state) NaN = ''n/a''
   \<and> secondsToDisplayTime demo_engine_str init_state (Fin (119 / 2))
        = display_time_ref ''--:--'' False (Some (119 / 2))
   \<and> display_time_ref ''--:--'' False (Some (119 / 2)) = ''1:00''"
proof -
  have r: "nat (round \<bar>119 / 2 :: real\<bar>) = 60" by (simp add: round_def)
  then have b: "nat (round \<bar>119 / 2 :: real\<bar>) < 2 ^ 53" by simp
  have i: "noTime init_state = ''--:--''" "displayTimeZeroPad init_state = False"
    by (simp_all add: init_state_def)
  have d: "display_time_ref ''--:--'' False (Some (119 / 2)) = ''1:00''"
    by (simp add: display_time_ref_def round_def two_digits_def nat_str.simps digit_char_def)
  from display_time_refines [of demo_engine_str init_state "''n/a''"] b
  have "secondsToDisplayTime demo_engine_str init_state (Fin (119 / 2))
          = display_time_ref (noTime init_state) (displayTimeZeroPad init_state) (Some (119 / 2))"
    and "secondsToDisplayTime demo_engine_str (setNoTimeDisplay ''n/a'' init_state) NaN = ''n/a''"
    by blast+
  then show ?thesis using b d unfolding i by blast
qed

text \<open>
  Claim C9, as the specification states it, fails: with padding disabled 3661 seconds
  are formatted as \<^verbatim>\<open>1:01:01\<close>, a time with an hours field whose minutes field
  \<^verbatim>\<open>01\<close> is zero-padded.
\<close>

theorem minutes_padding_counterexample:
  "secondsToDisplayTime demo_engine_str init_state (Fin 3661) = ''1:01:01''
   \<and> \<not> displayTimeZeroPad init_state
   \<and> has_hours_field (secondsToDisplayTime demo_engine_str init_state (Fin 3661))
   \<and> minutes_field (secondsToDisplayTime demo_engine_str init_state (Fin 3661)) = ''01''
   \<and> zero_padded (minutes_field (secondsToDisplayTime demo_engine_str init_state (Fin 3661)))"
  unfolding display_examples(4)
  by (simp add: init_state_def has_hours_field_def minutes_field_def zero_padded_def
        time_fields_def)

text \<open>
  Claim C9, amended. For every finite input whose rounded absolute value is below
  \<open>2^53\<close>: the formatted time has an hours field exactly when the rounded total is at
  least 3600 seconds. Without an hours field the minutes field is zero-padded exactly when
  padding is enabled and the minutes are below 10, so never while padding is disabled.
  With an hours field the minutes field always has two digits, zero-padded when the
  minutes within the hour are below 10, and the padding setting does not change the
  output. 42 seconds are formatted as \<^verbatim>\<open>0:42\<close> with the initial settings and as
  \<^verbatim>\<open>00:42\<close> after \<^verbatim>\<open>enableDisplayTimeZeroPad\<close>.
\<close>

theorem minutes_padding:
  "(nat (round \<bar>v\<bar>) < 2 ^ 53 \<longrightarrow>
      (has_hours_field (secondsToDisplayTime engine_str s (Fin v))
         \<longleftrightarrow> 3600 \<le> nat (round \<bar>v\<bar>))
      \<and> (\<not> has_hours_field (secondsToDisplayTime engine_str s (Fin v)) \<longrightarrow>
           (zero_padded (minutes_field (secondsToDisplayTime engine_str s (Fin v)))
              \<longleftrightarrow> displayTimeZeroPad s \<and> nat (round \<bar>v\<bar>) < 600))
      \<and> (has_hours_field (secondsToDisplayTime engine_str s (Fin v)) \<longrightarrow>
           length (minutes_field (secondsToDisplayTime engine_str s (Fin v))) = 2
           \<and> (zero_padded (minutes_field (secondsToDisplayTime engine_str s (Fin v)))
                \<longleftrightarrow> nat (round \<bar>v\<bar>) div 60 mod 60 < 10)
           \<and> secondsToDisplayTime engine_str (s\<lparr>displayTimeZeroPad := b\<rparr>) (Fin v)
                = secondsToDisplayTime engine_str s (Fin v)))
   \<and> secondsToDisplayTime engine_str init_state (Fin 42) = ''0:42''
   \<and> secondsToDisplayTime engine_str (enableDisplayTimeZeroPad init_state) (Fin 42) = ''00:42''"
proof (cases "nat (round \<bar>v\<bar>) < 2 ^ 53")
  case False
  then show ?thesis using display_examples(5,6) [of engine_str] by simp
next
  case bound: True
  note x = display_examples(5,6) [of engine_str]
  show ?thesis
  proof (cases "3600 \<le> nat (round \<bar>v\<bar>)")
    case True
    have m: "nat (round \<bar>v\<bar>) div 60 mod 60 < 100"
      by (rule less_trans [of _ 60]) simp_all
    have h: "0 < nat (round \<bar>v\<bar>) div 3600" using True by (simp add: div_greater_zero_iff)
    have e: "secondsToDisplayTime engine_str (s\<lparr>displayTimeZeroPad := b\<rparr>) (Fin v)
               = secondsToDisplayTime engine_str s (Fin v)"
      unfolding secondsToDisplayTime_Fin_eq [OF bound] Let_def using h by (simp only: if_True)
    show ?thesis
      using True bound e x two_digits_length [OF m]
        two_digits_hd [of "nat (round \<bar>v\<bar>) div 60 mod 60"]
      by (simp add: has_hours_field_def minutes_field_def zero_padded_def
            fields_with_hours [OF True bound])
  next
    case False
    then have lt: "nat (round \<bar>v\<bar>) < 3600" by simp
    have d: "nat (round \<bar>v\<bar>) div 60 < 10 \<longleftrightarrow> nat (round \<bar>v\<bar>) < 600"
      by (simp add: div_less_iff_less_mult)
    have p: "\<not> (1 < length (nat_str k) \<and> hd (nat_str k) = CHR ''0'')" for k
      using nat_str_hd [of k] nat_str_length [of k] by auto
    show ?thesis
      using lt x d p
      by (auto simp: has_hours_field_def minutes_field_def zero_padded_def fields_without_hours
            nat_str_nonempty)
  qed
qed

theorem minutes_padding_witness:
  "nat (round \<bar>42 :: real\<bar>) < 2 ^ 53 \<and> nat (round \<bar>3661 :: real\<bar>) < 2 ^ 53
   \<and> \<not> has_hours_field
         (secondsToDisplayTime demo_engine_str (enableDisplayTimeZeroPad init_state) (Fin 42))
   \<and> zero_padded
        (minutes_field
           (secondsToDisplayTime demo_engine_str (enableDisplayTimeZeroPad init_state) (Fin 42)))
   \<and> \<not> zero_padded (minutes_field (secondsToDisplayTime demo_engine_str init_state (Fin 42)))
   \<and> has_hours_field (secondsToDisplayTime demo_engine_str init_state (Fin 3661))
   \<and> length (minutes_field (secondsToDisplayTime demo_engine_str init_state (Fin 3661))) = 2
   \<and> secondsToDisplayTime demo_engine_str (init_state\<lparr>displayTimeZeroPad := True\<rparr>) (Fin 3661)
        = secondsToDisplayTime demo_engine_str init_state (Fin 3661)"
proof -
  have r: "nat (round \<bar>42 :: real\<bar>) = 42" "nat (round \<bar>3661 :: real\<bar>) = 3661"
    by (simp_all add: round_def)
  have n: "\<not> (3600 :: nat) \<le> 42" "(42 :: nat) < 600" "(3600 :: nat) \<le> 3661"
    "(42 :: nat) < 2 ^ 53" "(3661 :: nat) < 2 ^ 53"
    by simp_all
  have p: "displayTimeZeroPad (enableDisplayTimeZeroPad init_state)"
    "\<not> displayTimeZeroPad init_state"
    by (simp_all add: enableDisplayTimeZeroPad_def init_state_def)
  have a: "\<not> has_hours_field
         (secondsToDisplayTime demo_engine_str (enableDisplayTimeZeroPad init_state) (Fin 42))
    \<and> zero_padded
         (minutes_field
            (secondsToDisplayTime demo_engine_str (enableDisplayTimeZeroPad init_state) (Fin 42)))"
    using minutes_padding
            [of 42 demo_engine_str "enableDisplayTimeZeroPad init_state", unfolded r] n p(1)
    by blast
  have b: "\<not> zero_padded (minutes_field (secondsToDisplayTime demo_engine_str init_state (Fin 42)))"
    using minutes_padding [of 42 demo_engine_str init_state, unfolded r] n p(2) by blast
  have c: "has_hours_field (secondsToDisplayTime demo_engine_str init_state (Fin 3661))
    \<and> length (minutes_field (secondsToDisplayTime demo_engine_str init_state (Fin 3661))) = 2
    \<and> secondsToDisplayTime demo_engine_str (init_state\<lparr>displayTimeZeroPad := True\<rparr>) (Fin 3661)
         = secondsToDisplayTime demo_engine_str init_state (Fin 3661)"
    using minutes_padding [of 3661 demo_engine_str init_state True, unfolded r] n by blast
  have d: "nat (round \<bar>42 :: real\<bar>) < 2 ^ 53 \<and> nat (round \<bar>3661 :: real\<bar>) < 2 ^ 53"
    unfolding r using n by blast
  show ?thesis using a b c d by blast
qed

end
